theory Spec2Isabelle
  imports Complex_Main "HOL-Library.Multiset" "HOL-Library.AList"
begin

section \<open>Text primitives\<close>

text \<open>
  A text is a \<^typ>\<open>string\<close>: one \<^typ>\<open>char\<close> per code unit of the TypeScript string,
  for code units below U+0100 (the 8-bit range of \<^typ>\<open>char\<close>, read as Latin-1).
  Numbers of the source (IEEE doubles) are modelled as \<^typ>\<open>real\<close>, so that the
  arithmetic is exact. A \<^verbatim>\<open>Map<string, number>\<close> is an association list with distinct
  keys in insertion order; \<^const>\<open>AList.update\<close> is its \<^verbatim>\<open>set\<close> (an existing
  key keeps its place, a new key goes to the end) and \<^const>\<open>map_of\<close> its \<^verbatim>\<open>get\<close>.
\<close>

definition code_unit :: "char \<Rightarrow> nat" where
  "code_unit c = of_char c"

text \<open>The regular-expression classes \<^verbatim>\<open>\s\<close>, \<^verbatim>\<open>\d\<close>, \<^verbatim>\<open>[a-z]\<close>, \<^verbatim>\<open>[A-Z]\<close>, \<^verbatim>\<open>\w\<close>.\<close>

definition is_space :: "char \<Rightarrow> bool" where
  "is_space c = (code_unit c \<in> {9, 10, 11, 12, 13, 32, 160})"

definition is_digit :: "char \<Rightarrow> bool" where
  "is_digit c = (48 \<le> code_unit c \<and> code_unit c \<le> 57)"

definition is_lower_az :: "char \<Rightarrow> bool" where
  "is_lower_az c = (97 \<le> code_unit c \<and> code_unit c \<le> 122)"

definition is_upper_AZ :: "char \<Rightarrow> bool" where
  "is_upper_AZ c = (65 \<le> code_unit c \<and> code_unit c \<le> 90)"

definition is_alpha :: "char \<Rightarrow> bool" where
  "is_alpha c = (is_lower_az c \<or> is_upper_AZ c)"

definition is_word :: "char \<Rightarrow> bool" where
  "is_word c = (is_alpha c \<or> is_digit c \<or> c = CHR ''_'')"

text \<open>
  \<^verbatim>\<open>String.prototype.toLowerCase\<close> on one code unit below U+0100: the letters A-Z and
  the Latin-1 capitals U+00C0..U+00DE (without the multiplication sign U+00D7) move up
  by 32, every other code unit stays.
\<close>

definition is_uppercase :: "char \<Rightarrow> bool" where
  "is_uppercase c =
     (is_upper_AZ c \<or> (192 \<le> code_unit c \<and> code_unit c \<le> 222 \<and> code_unit c \<noteq> 215))"

definition toLowerCase_char :: "char \<Rightarrow> char" where
  "toLowerCase_char c = (if is_uppercase c then char_of (code_unit c + 32) else c)"

definition toLowerCase :: "string \<Rightarrow> string" where
  "toLowerCase text = map toLowerCase_char text"

text \<open>
  \<^verbatim>\<open>text.split(/\s+/)\<close>: the pieces between the maximal whitespace runs. A run at the
  start or at the end of the text leaves an empty piece there, and the empty text gives
  the single empty piece.
\<close>

function split_ws :: "string \<Rightarrow> string list" where
  "split_ws [] = [[]]"
| "split_ws (c # cs) =
     (if is_space c then [] # split_ws (dropWhile is_space cs)
      else (case split_ws cs of [] \<Rightarrow> [[c]] | p # ps \<Rightarrow> (c # p) # ps))"
  by pat_completeness auto
termination
  by (relation "measure length") (auto simp: length_dropWhile_le less_Suc_eq_le)

text \<open>\<^verbatim>\<open>text.split('\n')\<close>: the pieces between the line feeds.\<close>

fun split_lines :: "string \<Rightarrow> string list" where
  "split_lines [] = [[]]"
| "split_lines (c # cs) =
     (if c = CHR 0x0A then [] # split_lines cs
      else (case split_lines cs of [] \<Rightarrow> [[c]] | p # ps \<Rightarrow> (c # p) # ps))"

text \<open>\<^verbatim>\<open>text.trim()\<close> removes the whitespace at both ends.\<close>

definition trim :: "string \<Rightarrow> string" where
  "trim s = rev (dropWhile is_space (rev (dropWhile is_space s)))"

text \<open>\<^verbatim>\<open>new Set(xs)\<close>, listed in insertion order: the first occurrence of each element.\<close>

definition js_set :: "'a list \<Rightarrow> 'a list" where
  "js_set xs = foldl (\<lambda>s x. if x \<in> set s then s else s @ [x]) [] xs"

text \<open>
  \<^verbatim>\<open>xs.sort(cmp)\<close>: \<^verbatim>\<open>Array.prototype.sort\<close> is stable, and for a consistent comparator
  its result is the one of the stable insertion sort below, which puts an element before
  the first element it does not compare greater than.
\<close>

fun insort_by :: "('a \<Rightarrow> 'a \<Rightarrow> real) \<Rightarrow> 'a \<Rightarrow> 'a list \<Rightarrow> 'a list" where
  "insort_by cmp x [] = [x]"
| "insort_by cmp x (y # ys) = (if cmp x y \<le> 0 then x # y # ys else y # insort_by cmp x ys)"

definition js_sort :: "('a \<Rightarrow> 'a \<Rightarrow> real) \<Rightarrow> 'a list \<Rightarrow> 'a list" where
  "js_sort cmp xs = foldr (insort_by cmp) xs []"

text \<open>\<^verbatim>\<open>Math.round\<close> rounds to the nearest integer, a tie towards plus infinity.\<close>

definition Math_round :: "real \<Rightarrow> real" where
  "Math_round x = of_int \<lfloor>x + 1 / 2\<rfloor>"

text \<open>
  \<^verbatim>\<open>Math.log\<close> at a positive argument. (At 0 the source gives minus infinity, which
  \<^typ>\<open>real\<close> does not have: the theorems below about weights assume a corpus with at
  least one document, as every ranking run has, so the argument is positive.)
\<close>

definition Math_log :: "real \<Rightarrow> real" where
  "Math_log x = ln x"

section \<open>Tokenizer (calculate-similarity/index.ts: tokenize)\<close>

definition is_az09 :: "char \<Rightarrow> bool" where
  "is_az09 c = (is_lower_az c \<or> is_digit c)"

text \<open>\<^verbatim>\<open>.replace(/[^a-z0-9\s]/g, ' ')\<close>\<close>

definition replace_non_az09 :: "string \<Rightarrow> string" where
  "replace_non_az09 text = map (\<lambda>c. if is_az09 c \<or> is_space c then c else CHR '' '') text"

definition tokenize :: "string \<Rightarrow> string list" where
  "tokenize text =
     filter (\<lambda>word. length word > 2) (split_ws (replace_non_az09 (toLowerCase text)))"

text \<open>
  To state what the tokens are: the maximal non-empty runs of the characters of a class,
  from left to right.
\<close>

function runs :: "(char \<Rightarrow> bool) \<Rightarrow> string \<Rightarrow> string list" where
  "runs P [] = []"
| "runs P (c # cs) =
     (if P c then takeWhile P (c # cs) # runs P (dropWhile P cs) else runs P cs)"
  by pat_completeness auto
termination
  by (relation "measure (\<lambda>(P, s). length s)") (auto simp: length_dropWhile_le less_Suc_eq_le)

section \<open>Term weights (calculateTfIdf)\<close>

type_synonym vec = "(string \<times> real) list"

text \<open>\<^verbatim>\<open>m.get(k) || 0\<close>: 0 for a missing key and for a stored 0.\<close>

definition get_or0 :: "vec \<Rightarrow> string \<Rightarrow> real" where
  "get_or0 m k = (case map_of m k of None \<Rightarrow> 0 | Some v \<Rightarrow> (if v = 0 then 0 else v))"

definition calculateTfIdf :: "string list \<Rightarrow> string list list \<Rightarrow> vec" where
  "calculateTfIdf tokens allTokens =
     (let tokenCount = length tokens;
          tf = foldl (\<lambda>tf token. AList.update token (get_or0 tf token + 1 / real tokenCount) tf)
                 [] tokens;
          docCount = length allTokens;
          idf = foldl (\<lambda>idf token.
                   let docsWithToken = length (filter (\<lambda>doc. token \<in> set doc) allTokens)
                   in AList.update token (Math_log (real docCount / real (docsWithToken + 1))) idf)
                 [] tokens;
          tfidf = foldl (\<lambda>tfidf (token, tfValue).
                     AList.update token (tfValue * get_or0 idf token) tfidf)
                   [] tf
      in tfidf)"

text \<open>The weighting as the specification words it, to compare \<open>calculateTfIdf\<close> with.\<close>

definition termFrequency :: "string \<Rightarrow> string list \<Rightarrow> real" where
  "termFrequency t d = real (count_list d t) / real (length d)"

definition documentFrequency :: "string \<Rightarrow> string list list \<Rightarrow> nat" where
  "documentFrequency t corpus = length (filter (\<lambda>doc. t \<in> set doc) corpus)"

definition inverseDocumentFrequency :: "string \<Rightarrow> string list list \<Rightarrow> real" where
  "inverseDocumentFrequency t corpus =
     ln (real (length corpus) / real (documentFrequency t corpus + 1))"

section \<open>Similarity (cosineSimilarity, findMatchedKeywords)\<close>

definition cosineSimilarity :: "vec \<Rightarrow> vec \<Rightarrow> real" where
  "cosineSimilarity vec1 vec2 =
     (let allKeys = js_set (map fst vec1 @ map fst vec2);
          (dotProduct, mag1, mag2) =
             foldl (\<lambda>(dotProduct, mag1, mag2) key.
                      let v1 = get_or0 vec1 key; v2 = get_or0 vec2 key
                      in (dotProduct + v1 * v2, mag1 + v1 * v1, mag2 + v2 * v2))
                   (0, 0, 0) allKeys
      in if mag1 = 0 \<or> mag2 = 0 then 0 else dotProduct / (sqrt mag1 * sqrt mag2))"

definition findMatchedKeywords :: "string list \<Rightarrow> string list \<Rightarrow> nat \<Rightarrow> string list" where
  "findMatchedKeywords jobTokens resumeTokens topN =
     (let jobSet = js_set jobTokens;
          resumeSet = js_set resumeTokens;
          matched = filter (\<lambda>token. token \<in> set resumeSet) jobSet;
          frequency = foldl (\<lambda>frequency token.
                         let jobCount = length (filter (\<lambda>t. t = token) jobTokens);
                             resumeCount = length (filter (\<lambda>t. t = token) resumeTokens)
                         in AList.update token (real (jobCount + resumeCount)) frequency)
                       [] matched
      in take topN (js_sort (\<lambda>a b. get_or0 frequency b - get_or0 frequency a) matched))"

section \<open>The ranking handler (calculate-similarity/index.ts, Deno.serve)\<close>

text \<open>
  The two tables the handler reads are lists of rows, the table of results it rewrites
  is a third list. The rows carry the columns the handler uses. The queries are the
  filters they ask for: \<^verbatim>\<open>.eq('id', x).single()\<close> gives the one row with that id and
  fails otherwise, \<^verbatim>\<open>.in('id', ids)\<close> gives the rows whose id is listed, in the order
  of the table. What the collaborators of the handler may refuse is an input of its own,
  the record \<open>faults\<close>: creating the client, each of the two queries, the delete and
  the insert.
\<close>

record job_posting =
  jp_id :: string
  description :: string
  requirements :: "string option"

record resume =
  r_id :: string
  extracted_text :: string

record match_result =
  resumeId :: string
  similarity :: real
  matchedKeywords :: "string list"

record similarity_row =
  job_posting_id :: string
  resume_id :: string
  similarity_score :: real
  matched_keywords :: "string list"
  ranking :: nat

record database =
  job_postings :: "job_posting list"
  resumes :: "resume list"
  similarity_results :: "similarity_row list"

text \<open>
  The body of the request, as \<^verbatim>\<open>const { data: matchRequest } = await req.json()\<close> reads
  it: not JSON at all, JSON without \<^verbatim>\<open>data\<close>, or the two fields, each of which
  may be missing.
\<close>

record match_request =
  jobPostingId :: "string option"
  resumeIds :: "string list option"

datatype request_body = NotJson | NoData | Data match_request

record http_request =
  req_method :: string
  authorization :: "string option"
  body :: request_body

record faults =
  client_fault :: bool
  job_query_fault :: bool
  resume_query_fault :: bool
  delete_fault :: bool
  insert_fault :: bool

text \<open>The errors the handler throws or rethrows; each ends the run with status 400.\<close>

datatype error =
  ClientError | MissingAuthorizationHeader | InvalidBody | NoRequestData
  | MissingRequiredFields | JobPostingNotFound | NoResumesFound | InsertFailed

datatype response =
  Preflight
  | Success "match_result list" nat
  | Failure error

definition job_tokens :: "job_posting \<Rightarrow> string list" where
  "job_tokens jobPosting =
     tokenize (description jobPosting @ '' '' @
               (case requirements jobPosting of None \<Rightarrow> [] | Some r \<Rightarrow> r))"

definition corpus_tokens :: "job_posting \<Rightarrow> resume list \<Rightarrow> string list list" where
  "corpus_tokens jobPosting rs =
     foldl (\<lambda>allTokens resume. allTokens @ [tokenize (extracted_text resume)])
       [job_tokens jobPosting] rs"

definition resume_tokens_map :: "resume list \<Rightarrow> (string \<times> string list) list" where
  "resume_tokens_map rs =
     foldl (\<lambda>m resume. AList.update (r_id resume) (tokenize (extracted_text resume)) m) [] rs"

text \<open>The body of the scoring loop, for one resume of the fetched rows \<open>rs\<close>.\<close>

definition score_resume :: "job_posting \<Rightarrow> resume list \<Rightarrow> resume \<Rightarrow> match_result" where
  "score_resume jobPosting rs resume =
     (let jobTokens = job_tokens jobPosting;
          allTokens = corpus_tokens jobPosting rs;
          jobTfidf = calculateTfIdf jobTokens allTokens;
          resumeTokens = the (map_of (resume_tokens_map rs) (r_id resume));
          resumeTfidf = calculateTfIdf resumeTokens allTokens;
          similarity = cosineSimilarity jobTfidf resumeTfidf;
          similarityPercent = Math_round (similarity * 100 * 100) / 100;
          matchedKeywords = findMatchedKeywords jobTokens resumeTokens 10
      in \<lparr>resumeId = r_id resume, similarity = similarityPercent,
          matchedKeywords = matchedKeywords\<rparr>)"

definition score_resumes :: "job_posting \<Rightarrow> resume list \<Rightarrow> match_result list" where
  "score_resumes jobPosting rs = map (score_resume jobPosting rs) rs"

text \<open>\<^verbatim>\<open>results.sort((a, b) => b.similarity - a.similarity)\<close>\<close>

definition rank_results :: "job_posting \<Rightarrow> resume list \<Rightarrow> match_result list" where
  "rank_results jobPosting rs =
     js_sort (\<lambda>a b. similarity b - similarity a) (score_resumes jobPosting rs)"

definition insert_data :: "string \<Rightarrow> match_result list \<Rightarrow> similarity_row list" where
  "insert_data jid results =
     map (\<lambda>(index, result).
            \<lparr>job_posting_id = jid, resume_id = resumeId result,
             similarity_score = similarity result,
             matched_keywords = matchedKeywords result, ranking = index + 1\<rparr>)
         (enumerate 0 results)"

definition select_job :: "database \<Rightarrow> string \<Rightarrow> job_posting option" where
  "select_job db jid =
     (case filter (\<lambda>j. jp_id j = jid) (job_postings db) of [j] \<Rightarrow> Some j | _ \<Rightarrow> None)"

definition select_resumes :: "database \<Rightarrow> string list \<Rightarrow> resume list" where
  "select_resumes db ids = filter (\<lambda>r. r_id r \<in> set ids) (resumes db)"

text \<open>
  The handler: the response and the database after it. Every throw of the source is a
  \<open>Failure\<close>. The result of the delete is not looked at by the source; a failed insert
  is thrown after the delete has run.
\<close>

definition serve_match :: "http_request \<Rightarrow> faults \<Rightarrow> database \<Rightarrow> response \<times> database" where
  "serve_match req flt db =
     (if req_method req = ''OPTIONS'' then (Preflight, db)
      else if client_fault flt then (Failure ClientError, db)
      else if authorization req = None \<or> authorization req = Some [] then
        (Failure MissingAuthorizationHeader, db)
      else
        (case body req of
           NotJson \<Rightarrow> (Failure InvalidBody, db)
         | NoData \<Rightarrow> (Failure NoRequestData, db)
         | Data matchRequest \<Rightarrow>
             if (case jobPostingId matchRequest of None \<Rightarrow> True | Some j \<Rightarrow> j = []) \<or>
                (case resumeIds matchRequest of None \<Rightarrow> True | Some ids \<Rightarrow> ids = [])
             then (Failure MissingRequiredFields, db)
             else
               let jid = the (jobPostingId matchRequest);
                   ids = the (resumeIds matchRequest)
               in if job_query_fault flt then (Failure JobPostingNotFound, db)
                  else
                    (case select_job db jid of
                       None \<Rightarrow> (Failure JobPostingNotFound, db)
                     | Some jobPosting \<Rightarrow>
                         if resume_query_fault flt then (Failure NoResumesFound, db)
                         else
                           let rs = select_resumes db ids in
                           if rs = [] then (Failure NoResumesFound, db)
                           else
                             let results = rank_results jobPosting rs;
                                 kept = (if delete_fault flt then similarity_results db
                                         else filter (\<lambda>row. job_posting_id row \<noteq> jid)
                                                (similarity_results db));
                                 insertData = insert_data jid results
                             in if insert_fault flt then
                                  (Failure InsertFailed, db\<lparr>similarity_results := kept\<rparr>)
                                else
                                  (Success results (length rs),
                                   db\<lparr>similarity_results := kept @ insertData\<rparr>))))"

text \<open>What a request asks for, read off its body (empty where the body has no such field).\<close>

definition requested_job :: "http_request \<Rightarrow> string" where
  "requested_job req =
     (case body req of
        Data m \<Rightarrow> (case jobPostingId m of Some j \<Rightarrow> j | None \<Rightarrow> [])
      | _ \<Rightarrow> [])"

definition requested_ids :: "http_request \<Rightarrow> string list" where
  "requested_ids req =
     (case body req of
        Data m \<Rightarrow> (case resumeIds m of Some ids \<Rightarrow> ids | None \<Rightarrow> [])
      | _ \<Rightarrow> [])"

text \<open>The rows the handler fetches for a request and the stored results it keeps.\<close>

definition fetched :: "http_request \<Rightarrow> database \<Rightarrow> resume list" where
  "fetched req db = select_resumes db (requested_ids req)"

definition kept_results :: "http_request \<Rightarrow> faults \<Rightarrow> database \<Rightarrow> similarity_row list" where
  "kept_results req flt db =
     (if delete_fault flt then similarity_results db
      else filter (\<lambda>row. job_posting_id row \<noteq> requested_job req) (similarity_results db))"

text \<open>
  The conditions under which the handler throws after the preflight check: a refusing
  collaborator, the header, the body and its two fields, and the two queries. The texts
  of the job posting and of the resumes do not occur in them.
\<close>

definition invalid_request :: "http_request \<Rightarrow> faults \<Rightarrow> database \<Rightarrow> bool" where
  "invalid_request req flt db =
     (client_fault flt \<or>
      authorization req = None \<or> authorization req = Some [] \<or>
      body req = NotJson \<or> body req = NoData \<or>
      requested_job req = [] \<or> requested_ids req = [] \<or>
      job_query_fault flt \<or> select_job db (requested_job req) = None \<or>
      resume_query_fault flt \<or> fetched req db = [] \<or>
      insert_fault flt)"

definition no_faults :: faults where
  "no_faults =
     \<lparr>client_fault = False, job_query_fault = False, resume_query_fault = False,
      delete_fault = False, insert_fault = False\<rparr>"

text \<open>The error a failing run ends with: the first of the checks, in the handler's order, that does not pass.\<close>

definition failure_of :: "http_request \<Rightarrow> faults \<Rightarrow> database \<Rightarrow> error" where
  "failure_of req flt db =
     (if client_fault flt then ClientError
      else if authorization req = None \<or> authorization req = Some [] then MissingAuthorizationHeader
      else if body req = NotJson then InvalidBody
      else if body req = NoData then NoRequestData
      else if requested_job req = [] \<or> requested_ids req = [] then MissingRequiredFields
      else if job_query_fault flt \<or> select_job db (requested_job req) = None then JobPostingNotFound
      else if resume_query_fault flt \<or> fetched req db = [] then NoResumesFound
      else InsertFailed)"

definition insert_faults :: faults where
  "insert_faults = no_faults\<lparr>insert_fault := True\<rparr>"

text \<open>A run, for the examples below: three requested resumes, the first with empty text.\<close>

definition demo_job :: job_posting where
  "demo_job = \<lparr>jp_id = ''j1'', description = ''React developer'', requirements = None\<rparr>"

definition demo_resumes :: "resume list" where
  "demo_resumes =
     [\<lparr>r_id = ''r1'', extracted_text = ''''\<rparr>,
      \<lparr>r_id = ''r2'', extracted_text = ''React developer''\<rparr>,
      \<lparr>r_id = ''r3'', extracted_text = ''Python''\<rparr>]"

definition demo_db :: database where
  "demo_db =
     \<lparr>job_postings = [demo_job],
      resumes = demo_resumes @ [\<lparr>r_id = ''r4'', extracted_text = ''Kotlin''\<rparr>],
      similarity_results =
        [\<lparr>job_posting_id = ''j1'', resume_id = ''r4'', similarity_score = 50,
          matched_keywords = [], ranking = 1\<rparr>,
         \<lparr>job_posting_id = ''j2'', resume_id = ''r1'', similarity_score = 10,
          matched_keywords = [], ranking = 1\<rparr>]\<rparr>"

definition demo_request :: http_request where
  "demo_request =
     \<lparr>req_method = ''POST'', authorization = Some ''Bearer token'',
      body = Data \<lparr>jobPostingId = Some ''j1'', resumeIds = Some [''r1'', ''r2'', ''r3'']\<rparr>\<rparr>"

text \<open>Two more requests to the same tables: one names a resume that has no row, one lists the three in reverse.\<close>

definition demo_request_missing :: http_request where
  "demo_request_missing =
     \<lparr>req_method = ''POST'', authorization = Some ''Bearer token'',
      body = Data \<lparr>jobPostingId = Some ''j1'', resumeIds = Some [''r3'', ''zz'']\<rparr>\<rparr>"

definition demo_request_reversed :: http_request where
  "demo_request_reversed =
     \<lparr>req_method = ''POST'', authorization = Some ''Bearer token'',
      body = Data \<lparr>jobPostingId = Some ''j1'', resumeIds = Some [''r3'', ''r2'', ''r1'']\<rparr>\<rparr>"

definition demo_results :: "match_result list" where
  "demo_results =
     [\<lparr>resumeId = ''r2'', similarity = 100, matchedKeywords = [''react'', ''developer'']\<rparr>,
      \<lparr>resumeId = ''r1'', similarity = 0, matchedKeywords = []\<rparr>,
      \<lparr>resumeId = ''r3'', similarity = 0, matchedKeywords = []\<rparr>]"

definition demo_db_after :: database where
  "demo_db_after =
     demo_db\<lparr>similarity_results :=
        [\<lparr>job_posting_id = ''j2'', resume_id = ''r1'', similarity_score = 10,
          matched_keywords = [], ranking = 1\<rparr>,
         \<lparr>job_posting_id = ''j1'', resume_id = ''r2'', similarity_score = 100,
          matched_keywords = [''react'', ''developer''], ranking = 1\<rparr>,
         \<lparr>job_posting_id = ''j1'', resume_id = ''r1'', similarity_score = 0,
          matched_keywords = [], ranking = 2\<rparr>,
         \<lparr>job_posting_id = ''j1'', resume_id = ''r3'', similarity_score = 0,
          matched_keywords = [], ranking = 3\<rparr>]\<rparr>"

section \<open>Regular expressions of the resume processor\<close>

text \<open>
  The expressions of the source are sequences of items: one character of a class, a
  greedy repetition \<^verbatim>\<open>{n,}\<close> of a class (\<^verbatim>\<open>+\<close> is \<^verbatim>\<open>{1,}\<close>) and the word boundary
  \<^verbatim>\<open>\b\<close>. \<open>rx_match\<close> is the backtracking matcher at one position: a repetition takes
  the longest run first and gives characters back one at a time until the rest matches.
  It returns the length of the match; \<open>prev\<close> is the character before the position.
  \<open>rx_exec\<close> tries the positions from the left, as \<^verbatim>\<open>RegExp.prototype.exec\<close> does.
\<close>

datatype rx_item = Class "char \<Rightarrow> bool" | Rep nat "char \<Rightarrow> bool" | WordBoundary

fun first_some :: "'a option list \<Rightarrow> 'a option" where
  "first_some [] = None"
| "first_some (None # xs) = first_some xs"
| "first_some (Some x # xs) = Some x"

definition at_word_boundary :: "char option \<Rightarrow> string \<Rightarrow> bool" where
  "at_word_boundary prev s =
     ((case prev of None \<Rightarrow> False | Some c \<Rightarrow> is_word c) \<noteq>
      (case s of [] \<Rightarrow> False | c # _ \<Rightarrow> is_word c))"

definition last_consumed :: "char option \<Rightarrow> string \<Rightarrow> nat \<Rightarrow> char option" where
  "last_consumed prev s k = (if k = 0 then prev else Some (s ! (k - 1)))"

fun rx_match :: "rx_item list \<Rightarrow> char option \<Rightarrow> string \<Rightarrow> nat option" where
  "rx_match [] prev s = Some 0"
| "rx_match (Class P # r) prev s =
     (case s of [] \<Rightarrow> None
      | c # cs \<Rightarrow> if P c then map_option Suc (rx_match r (Some c) cs) else None)"
| "rx_match (WordBoundary # r) prev s =
     (if at_word_boundary prev s then rx_match r prev s else None)"
| "rx_match (Rep n P # r) prev s =
     first_some
       (map (\<lambda>k. map_option (\<lambda>m. k + m) (rx_match r (last_consumed prev s k) (drop k s)))
            (rev [n ..< length (takeWhile P s) + 1]))"

definition rx_exec :: "rx_item list \<Rightarrow> string \<Rightarrow> (nat \<times> nat) option" where
  "rx_exec r s =
     first_some
       (map (\<lambda>i. map_option (\<lambda>m. (i, m)) (rx_match r (last_consumed None s i) (drop i s)))
            [0 ..< length s + 1])"

text \<open>\<^verbatim>\<open>regex.test(s)\<close> and \<^verbatim>\<open>s.match(regex)[0]\<close>\<close>

definition rx_test :: "rx_item list \<Rightarrow> string \<Rightarrow> bool" where
  "rx_test r s = (rx_exec r s \<noteq> None)"

definition rx_match0 :: "rx_item list \<Rightarrow> string \<Rightarrow> string option" where
  "rx_match0 r s = map_option (\<lambda>(i, m). take m (drop i s)) (rx_exec r s)"

text \<open>
  The case-insensitive flag compares canonical characters, the upper-case forms. Below
  U+0100 the letters a-z and U+00E0..U+00FE (without the division sign U+00F7) move
  down by 32. (The upper-case forms of U+00B5 and U+00FF lie above U+00FF and are the
  form of no other character, so here they stay.)
\<close>

definition canonicalize :: "char \<Rightarrow> char" where
  "canonicalize c =
     (if is_lower_az c \<or> (224 \<le> code_unit c \<and> code_unit c \<le> 254 \<and> code_unit c \<noteq> 247)
      then char_of (code_unit c - 32) else c)"

definition bs :: char where
  "bs = CHR 0x5C"

text \<open>
  \<^verbatim>\<open>new RegExp(pattern, 'i')\<close> for the patterns the skill vocabulary gives: a backslash
  with \<^verbatim>\<open>b\<close> is the word boundary, a backslash with another character is that
  character, and every other character of the vocabulary stands for itself.
\<close>

fun parse_pattern :: "string \<Rightarrow> rx_item list" where
  "parse_pattern [] = []"
| "parse_pattern [c] = [Class (\<lambda>x. canonicalize x = canonicalize c)]"
| "parse_pattern (c # d # r) =
     (if c = bs then
        (if d = CHR ''b'' then WordBoundary else Class (\<lambda>x. canonicalize x = canonicalize d))
        # parse_pattern r
      else Class (\<lambda>x. canonicalize x = canonicalize c) # parse_pattern (d # r))"

section \<open>Metadata extraction (extractEmail, extractName, extractSkills, cleanText)\<close>

text \<open>\<^verbatim>\<open>/[a-zA-Z0-9._%+-]+@[a-zA-Z0-9.-]+\.[a-zA-Z]{2,}/\<close>\<close>

definition emailRegex :: "rx_item list" where
  "emailRegex =
     [Rep 1 (\<lambda>c. is_alpha c \<or> is_digit c \<or> c \<in> set ''._%+-''),
      Class (\<lambda>c. c = CHR ''@''),
      Rep 1 (\<lambda>c. is_alpha c \<or> is_digit c \<or> c \<in> set ''.-''),
      Class (\<lambda>c. c = CHR ''.''),
      Rep 2 is_alpha]"

definition extractEmail :: "string \<Rightarrow> string option" where
  "extractEmail text = rx_match0 emailRegex text"

definition extractName :: "string \<Rightarrow> string option" where
  "extractName text =
     (let lines = filter (\<lambda>line. length (trim line) > 0) (split_lines text)
      in if length lines > 0 then
           let firstLine = trim (lines ! 0)
           in if length firstLine < 50 \<and> \<not> rx_test [Class is_digit] firstLine
              then Some firstLine else None
         else None)"

text \<open>The vocabulary, as the string values of the source literals: \<^verbatim>\<open>'c\\+\\+'\<close> is c, backslash, +, backslash, +.\<close>

definition commonSkills :: "string list" where
  "commonSkills =
     [''javascript'', ''typescript'', ''python'', ''java'',
      [CHR ''c'', bs, CHR ''+'', bs, CHR ''+''],
      ''c#'', ''ruby'', ''php'', ''swift'', ''kotlin'',
      ''react'', ''angular'', ''vue'', ''node'', ''express'', ''django'', ''flask'', ''spring'',
      ''laravel'',
      ''sql'', ''mongodb'', ''postgresql'', ''mysql'', ''redis'', ''elasticsearch'',
      ''aws'', ''azure'', ''gcp'', ''docker'', ''kubernetes'', ''jenkins'', ''git'',
      ''machine learning'', ''deep learning'', ''nlp'', ''computer vision'', ''data science'',
      ''html'', ''css'', ''sass'', ''tailwind'', ''bootstrap'',
      ''rest api'', ''graphql'', ''microservices'', ''agile'', ''scrum'',
      ''tensorflow'', ''pytorch'', ''scikit-learn'', ''pandas'', ''numpy'',
      ''communication'', ''leadership'', ''teamwork'', ''problem solving'',
      ''project management'']"

text \<open>
  \<^verbatim>\<open>skill.replace(/\\\\[+]/g, '+')\<close>: the expression asks for two backslashes and a
  plus sign, and each such triple becomes a plus sign.
\<close>

fun unescape_plus :: "string \<Rightarrow> string" where
  "unescape_plus (a # b # c # r) =
     (if a = bs \<and> b = bs \<and> c = CHR ''+'' then CHR ''+'' # unescape_plus r
      else a # unescape_plus (b # c # r))"
| "unescape_plus s = s"

definition extractSkills :: "string \<Rightarrow> string list" where
  "extractSkills text =
     (let lowerText = toLowerCase text;
          foundSkills =
            foldl (\<lambda>foundSkills skill.
                     let regex = parse_pattern ([bs, CHR ''b''] @ skill @ [bs, CHR ''b''])
                     in if rx_test regex lowerText
                        then foundSkills @ [unescape_plus skill] else foundSkills)
                  [] commonSkills
      in js_set foundSkills)"

text \<open>\<^verbatim>\<open>text.replace(/\s+/g, ' ')\<close>: every maximal whitespace run becomes one space.\<close>

function collapse_ws :: "string \<Rightarrow> string" where
  "collapse_ws [] = []"
| "collapse_ws (c # cs) =
     (if is_space c then CHR '' '' # collapse_ws (dropWhile is_space cs)
      else c # collapse_ws cs)"
  by pat_completeness auto
termination
  by (relation "measure length") (auto simp: length_dropWhile_le less_Suc_eq_le)

text \<open>\<^verbatim>\<open>.replace(/[^\w\s@.\-]/g, ' ')\<close> on the collapsed text, then \<^verbatim>\<open>.trim()\<close>.\<close>

definition cleanText :: "string \<Rightarrow> string" where
  "cleanText text =
     trim (map (\<lambda>c. if is_word c \<or> is_space c \<or> c \<in> set ''@.-'' then c else CHR '' '')
             (collapse_ws text))"

section \<open>The resume handler (Deno.serve of the resume-processing function)\<close>

record resume_data =
  filename :: string
  content :: string
  userId :: string

record resume_insert =
  ri_filename :: string
  candidate_name :: "string option"
  candidate_email :: "string option"
  ri_extracted_text :: string
  skills :: "string list"
  uploaded_by :: string

datatype process_error = MissingAuthorization | MissingContentOrFilename

text \<open>The handler up to the row it inserts; the insert itself is taken to succeed.\<close>

definition process_resume :: "string option \<Rightarrow> resume_data \<Rightarrow> process_error + resume_insert" where
  "process_resume authHeader resumeData =
     (if authHeader = None \<or> authHeader = Some [] then Inl MissingAuthorization
      else if content resumeData = [] \<or> filename resumeData = [] then
        Inl MissingContentOrFilename
      else
        let cleanedText = cleanText (content resumeData);
            candidateName = extractName cleanedText;
            candidateEmail = extractEmail cleanedText;
            skills = extractSkills cleanedText
        in Inr \<lparr>ri_filename = filename resumeData, candidate_name = candidateName,
                candidate_email = candidateEmail, ri_extracted_text = cleanedText,
                skills = skills, uploaded_by = userId resumeData\<rparr>)"

text \<open>A resume of two lines, for the examples below, and the row the handler stores for it.\<close>

definition demo_resume_data :: resume_data where
  "demo_resume_data =
     \<lparr>filename = ''cv.txt'',
      content = ''John Smith'' @ [CHR 0x0A] @ ''Software engineer with a long record of shipped products'',
      userId = ''u1''\<rparr>"

definition demo_resume_row :: resume_insert where
  "demo_resume_row =
     \<lparr>ri_filename = ''cv.txt'',
      candidate_name = None,
      candidate_email = extractEmail ''John Smith Software engineer with a long record of shipped products'',
      ri_extracted_text = ''John Smith Software engineer with a long record of shipped products'',
      skills = extractSkills ''John Smith Software engineer with a long record of shipped products'',
      uploaded_by = ''u1''\<rparr>"

section \<open>Properties of the tokenizer\<close>

lemma split_ws_chars_all:
  "\<forall>w \<in> set (split_ws s). \<forall>c \<in> set w. c \<in> set s \<and> \<not> is_space c"
proof (induction s rule: split_ws.induct)
  case 1
  then show ?case by simp
next
  case (2 d ds)
  show ?case
  proof (cases "is_space d")
    case True
    with 2 show ?thesis
      by (auto dest: set_dropWhileD)
  next
    case False
    with 2 show ?thesis
      by (cases "split_ws ds") auto
  qed
qed

lemma split_ws_chars: "w \<in> set (split_ws s) \<Longrightarrow> c \<in> set w \<Longrightarrow> c \<in> set s \<and> \<not> is_space c"
  using split_ws_chars_all by blast

lemma replace_non_az09_chars:
  "c \<in> set (replace_non_az09 s) \<Longrightarrow> is_az09 c \<or> is_space c"
  by (auto simp: replace_non_az09_def is_space_def code_unit_def)

lemma az09_not_uppercase: "is_az09 c \<Longrightarrow> \<not> is_uppercase c"
  by (auto simp: is_az09_def is_uppercase_def is_lower_az_def is_digit_def is_upper_AZ_def)

lemma split_ws_unfold:
  "split_ws s = takeWhile (\<lambda>c. \<not> is_space c) s #
     (case dropWhile (\<lambda>c. \<not> is_space c) s of [] \<Rightarrow> [] | c # r \<Rightarrow> split_ws (dropWhile is_space r))"
proof (induction s rule: split_ws.induct)
  case 1
  then show ?case by simp
next
  case (2 c cs)
  show ?case
  proof (cases "is_space c")
    case True
    then show ?thesis by simp
  next
    case False
    with 2(2) show ?thesis by simp
  qed
qed

lemma runs_skip: "runs P (dropWhile (\<lambda>c. \<not> P c) s) = runs P s"
  by (induction s) simp_all

lemma split_ws_runs:
  "filter (\<lambda>w. w \<noteq> []) (split_ws s) = runs (\<lambda>c. \<not> is_space c) s"
proof (induction s rule: length_induct)
  case (1 s)
  let ?Q = "\<lambda>c. \<not> is_space c"
  show ?case
  proof (cases s)
    case Nil
    then show ?thesis by simp
  next
    case (Cons c cs)
    show ?thesis
    proof (cases "is_space c")
      case True
      have "length (dropWhile is_space cs) < length s"
        using Cons length_dropWhile_le [of is_space cs] by simp
      with 1 have "filter (\<lambda>w. w \<noteq> []) (split_ws (dropWhile is_space cs)) = runs ?Q (dropWhile is_space cs)"
        by blast
      also have "\<dots> = runs ?Q cs"
        using runs_skip [of ?Q cs] by simp
      finally show ?thesis
        using True Cons by simp
    next
      case False
      have sw: "split_ws (c # cs) = (c # takeWhile ?Q cs) #
          (case dropWhile ?Q cs of [] \<Rightarrow> [] | d # r \<Rightarrow> split_ws (dropWhile is_space r))"
        by (subst split_ws_unfold) (simp add: False)
      show ?thesis
      proof (cases "dropWhile ?Q cs")
        case Nil
        from False \<open>s = c # cs\<close> show ?thesis
          by (simp add: sw Nil del: split_ws.simps)
      next
        case (Cons d r)
        then have d: "is_space d"
          using hd_dropWhile [of ?Q cs] by auto
        have "length r < length s"
          using Cons \<open>s = c # cs\<close> length_dropWhile_le [of ?Q cs] by simp
        moreover have "length (dropWhile is_space r) \<le> length r"
          by (rule length_dropWhile_le)
        ultimately have "length (dropWhile is_space r) < length s"
          by simp
        with 1 have "filter (\<lambda>w. w \<noteq> []) (split_ws (dropWhile is_space r)) = runs ?Q (dropWhile is_space r)"
          by blast
        also have "\<dots> = runs ?Q r"
          using runs_skip [of ?Q r] by simp
        also have "\<dots> = runs ?Q (d # r)"
          using d by simp
        finally have "filter (\<lambda>w. w \<noteq> []) (split_ws (dropWhile is_space r)) = runs ?Q (dropWhile ?Q cs)"
          by (simp only: Cons)
        with False Cons \<open>s = c # cs\<close> show ?thesis
          by (simp add: sw del: split_ws.simps)
      qed
    qed
  qed
qed

lemma runs_cong: "(\<And>c. c \<in> set s \<Longrightarrow> P c = Q c) \<Longrightarrow> runs P s = runs Q s"
proof (induction P s rule: runs.induct)
  case (1 P)
  then show ?case by simp
next
  case (2 P c cs)
  have tw: "takeWhile P cs = takeWhile Q cs" and dw: "dropWhile P cs = dropWhile Q cs"
    using 2(3) by (auto intro: takeWhile_cong dropWhile_cong)
  show ?case
  proof (cases "P c")
    case True
    then have q: "Q c" using 2(3) by simp
    have "runs P (dropWhile P cs) = runs Q (dropWhile P cs)"
      using True 2(3) by (intro 2(1)) (auto dest: set_dropWhileD)
    with True q tw dw show ?thesis by simp
  next
    case False
    then have q: "\<not> Q c" using 2(3) by simp
    have "runs P cs = runs Q cs"
      using False 2(3) by (intro 2(2)) auto
    with False q show ?thesis by simp
  qed
qed

lemma runs_map:
  "(\<And>c. P (f c) = P c) \<Longrightarrow> (\<And>c. P c \<Longrightarrow> f c = c) \<Longrightarrow> runs P (map f s) = runs P s"
proof (induction P s rule: runs.induct)
  case (1 P)
  then show ?case by simp
next
  case (2 P c cs)
  note same = \<open>\<And>c. P (f c) = P c\<close> and fixed = \<open>\<And>c. P c \<Longrightarrow> f c = c\<close>
  have tw: "takeWhile P (map f cs) = takeWhile P cs"
    by (induction cs) (auto simp: same fixed)
  have dw: "dropWhile P (map f cs) = map f (dropWhile P cs)"
    by (simp add: dropWhile_map comp_def same)
  show ?case
  proof (cases "P c")
    case True
    with 2(1) [OF True same fixed] tw dw show ?thesis
      by (simp add: same fixed)
  next
    case False
    with 2(2) [OF False same fixed] show ?thesis
      by (simp add: same)
  qed
qed

lemma tokenize_runs:
  "tokenize s = filter (\<lambda>w. 3 \<le> length w) (runs is_az09 (toLowerCase s))"
proof -
  let ?f = "\<lambda>c. if is_az09 c \<or> is_space c then c else CHR '' ''"
  let ?s = "replace_non_az09 (toLowerCase s)"
  have disj: "is_az09 c \<Longrightarrow> \<not> is_space c" for c
    by (auto simp: is_az09_def is_space_def is_lower_az_def is_digit_def)
  have sp: "is_space (CHR '' '')"
    by (simp add: is_space_def code_unit_def)
  have "tokenize s = filter (\<lambda>w. 2 < length w) (filter (\<lambda>w. w \<noteq> []) (split_ws ?s))"
    by (auto simp: tokenize_def intro: filter_cong)
  also have "\<dots> = filter (\<lambda>w. 2 < length w) (runs (\<lambda>c. \<not> is_space c) ?s)"
    by (simp only: split_ws_runs)
  also have "runs (\<lambda>c. \<not> is_space c) ?s = runs is_az09 ?s"
    using replace_non_az09_chars disj by (intro runs_cong) blast
  also have "runs is_az09 ?s = runs is_az09 (toLowerCase s)"
    unfolding replace_non_az09_def using disj sp by (intro runs_map) auto
  finally have "tokenize s = filter (\<lambda>w. 2 < length w) (runs is_az09 (toLowerCase s))" .
  moreover have "(\<lambda>w :: string. 2 < length w) = (\<lambda>w. 3 \<le> length w)"
    by (intro ext) arith
  ultimately show ?thesis
    by (simp only:)
qed

text \<open>
  C8. The tokens of a text are the maximal runs of characters in [a-z0-9] of the
  lower-cased text that have at least three characters, in order: lower-casing,
  replacing every other non-whitespace character by a space, splitting at whitespace
  runs and dropping the pieces of length at most 2 gives exactly these. So every token
  has at least three characters, all of them in [a-z0-9] (none is uppercase, none is
  whitespace), and the empty text gives the empty token sequence. The function is
  total: there is no error case.
\<close>

theorem tokenize_tokens:
  "tokenize text = filter (\<lambda>tok. 3 \<le> length tok) (runs is_az09 (toLowerCase text)) \<and>
   (\<forall>tok \<in> set (tokenize text).
      3 \<le> length tok \<and> (\<forall>c \<in> set tok. is_az09 c \<and> \<not> is_uppercase c \<and> \<not> is_space c))
   \<and> tokenize [] = []"
proof -
  have "is_az09 c \<and> \<not> is_uppercase c \<and> \<not> is_space c"
    if "tok \<in> set (tokenize text)" "c \<in> set tok" for tok c
  proof -
    from that have "tok \<in> set (split_ws (replace_non_az09 (toLowerCase text)))"
      by (simp add: tokenize_def)
    from split_ws_chars [OF this that(2)]
    have "c \<in> set (replace_non_az09 (toLowerCase text))" and ns: "\<not> is_space c"
      by simp_all
    from replace_non_az09_chars [OF this(1)] ns have "is_az09 c"
      by simp
    with ns show ?thesis
      by (simp add: az09_not_uppercase)
  qed
  moreover have "3 \<le> length tok" if "tok \<in> set (tokenize text)" for tok
    using that by (simp add: tokenize_def)
  moreover have "tokenize [] = []"
    by (simp add: tokenize_def toLowerCase_def replace_non_az09_def)
  ultimately show ?thesis
    using tokenize_runs by blast
qed

lemma tokenize_example: "tokenize ''Hi, Deno Edge!'' = [''deno'', ''edge'']"
  by code_simp

theorem tokenize_tokens_witness:
  "tokenize ''Hi, Deno Edge!'' = [''deno'', ''edge''] \<and>
   3 \<le> length ''deno'' \<and> is_az09 CHR ''d'' \<and> \<not> is_uppercase CHR ''d'' \<and>
   3 \<le> length ''edge'' \<and> is_az09 CHR ''g'' \<and> \<not> is_space CHR ''g'' \<and>
   tokenize [] = []"
  using tokenize_tokens [of "''Hi, Deno Edge!''"] tokenize_example
  by simp

section \<open>Properties of the term weights\<close>

lemma get_or0_eq: "get_or0 m k = (case map_of m k of None \<Rightarrow> 0 | Some v \<Rightarrow> v)"
  by (simp add: get_or0_def split: option.splits)

lemma tf_loop:
  "distinct (map fst acc) \<Longrightarrow>
   distinct (map fst (foldl (\<lambda>tf token. AList.update token (get_or0 tf token + c) tf) acc ts)) \<and>
   map_of (foldl (\<lambda>tf token. AList.update token (get_or0 tf token + c) tf) acc ts) t =
     (if t \<in> set ts then Some (get_or0 acc t + real (count_list ts t) * c) else map_of acc t)"
proof (induction ts arbitrary: acc)
  case Nil
  then show ?case by simp
next
  case (Cons a ts)
  have d: "distinct (map fst (AList.update a (get_or0 acc a + c) acc))"
    using Cons.prems by (simp add: distinct_update)
  show ?case
    using Cons.IH [OF d]
    by (auto simp: update_conv' get_or0_eq algebra_simps)
qed

lemma idf_loop:
  "map_of (foldl (\<lambda>idf token. AList.update token (g token) idf) acc ts) t =
     (if t \<in> set ts then Some (g t) else map_of acc t)"
  by (induction ts arbitrary: acc) (auto simp: update_conv')

lemma tfidf_loop:
  "distinct (map fst es) \<Longrightarrow> distinct (map fst acc) \<Longrightarrow>
   distinct (map fst (foldl (\<lambda>tfidf (token, tfValue). AList.update token (tfValue * h token) tfidf) acc es)) \<and>
   map_of (foldl (\<lambda>tfidf (token, tfValue). AList.update token (tfValue * h token) tfidf) acc es) t =
     (case map_of es t of Some v \<Rightarrow> Some (v * h t) | None \<Rightarrow> map_of acc t)"
proof (induction es arbitrary: acc)
  case Nil
  then show ?case by simp
next
  case (Cons e es)
  obtain k v where e: "e = (k, v)" by (cases e)
  have d: "distinct (map fst (AList.update k (v * h k) acc))"
    using Cons.prems by (simp add: distinct_update)
  have d': "distinct (map fst es)" using Cons.prems by simp
  have notin: "map_of es k = None"
    using Cons.prems(1) e by (simp add: map_of_eq_None_iff)
  show ?case
    using Cons.IH [OF d' d] notin
    by (auto simp: e update_conv' split: option.splits)
qed

lemma calculateTfIdf_lookup:
  "map_of (calculateTfIdf d corpus) t =
     (if t \<in> set d then Some (termFrequency t d * inverseDocumentFrequency t corpus) else None)"
  and calculateTfIdf_distinct: "distinct (map fst (calculateTfIdf d corpus))"
proof -
  let ?c = "1 / real (length d)"
  let ?tf = "foldl (\<lambda>tf token. AList.update token (get_or0 tf token + ?c) tf) [] d"
  let ?g = "\<lambda>token. Math_log (real (length corpus) / real (length (filter (\<lambda>doc. token \<in> set doc) corpus) + 1))"
  let ?idf = "foldl (\<lambda>idf token. AList.update token (?g token) idf) [] d"
  have tf: "distinct (map fst ?tf)"
    "\<And>t. map_of ?tf t = (if t \<in> set d then Some (real (count_list d t) * ?c) else None)"
    using tf_loop [of "[]" ?c d] by (simp_all add: get_or0_eq)
  have idf: "\<And>t. get_or0 ?idf t = (if t \<in> set d then ?g t else 0)"
    by (simp add: get_or0_eq idf_loop)
  have eq: "calculateTfIdf d corpus =
      foldl (\<lambda>tfidf (token, tfValue). AList.update token (tfValue * get_or0 ?idf token) tfidf) [] ?tf"
    by (simp add: calculateTfIdf_def Let_def)
  have nil: "distinct (map fst ([] :: vec))" by simp
  note loop = tfidf_loop [OF tf(1) nil, of "get_or0 ?idf"]
  from loop show "distinct (map fst (calculateTfIdf d corpus))"
    unfolding eq by (rule conjunct1)
  have "map_of (calculateTfIdf d corpus) t =
      (case map_of ?tf t of Some v \<Rightarrow> Some (v * get_or0 ?idf t) | None \<Rightarrow> map_of [] t)"
    unfolding eq using loop by (rule conjunct2)
  also have "\<dots> = (if t \<in> set d then Some (real (count_list d t) * ?c * ?g t) else None)"
    unfolding tf(2) idf by simp
  also have "\<dots> = (if t \<in> set d then Some (termFrequency t d * inverseDocumentFrequency t corpus) else None)"
    by (simp add: termFrequency_def inverseDocumentFrequency_def documentFrequency_def Math_log_def)
  finally show "map_of (calculateTfIdf d corpus) t =
     (if t \<in> set d then Some (termFrequency t d * inverseDocumentFrequency t corpus) else None)" .
qed

lemma get_or0_tfidf:
  "get_or0 (calculateTfIdf d corpus) t =
     (if t \<in> set d then termFrequency t d * inverseDocumentFrequency t corpus else 0)"
  by (simp add: get_or0_eq calculateTfIdf_lookup)

lemma termFrequency_pos: "t \<in> set d \<Longrightarrow> 0 < termFrequency t d"
proof -
  assume t: "t \<in> set d"
  then have "count_list d t \<noteq> 0" by (simp only: count_list_0_iff) simp
  then have "0 < count_list d t" by simp
  moreover from t have "0 < length d" by (cases d) auto
  ultimately show ?thesis by (simp add: termFrequency_def)
qed

lemma documentFrequency_le: "documentFrequency t corpus \<le> length corpus"
  by (simp add: documentFrequency_def)

lemma documentFrequency_less_iff:
  "documentFrequency t corpus < length corpus \<longleftrightarrow> (\<exists>doc \<in> set corpus. t \<notin> set doc)"
proof
  assume "documentFrequency t corpus < length corpus"
  then have "filter (\<lambda>doc. t \<in> set doc) corpus \<noteq> corpus"
    by (auto simp: documentFrequency_def)
  then show "\<exists>doc \<in> set corpus. t \<notin> set doc"
    by (auto simp: filter_id_conv)
next
  assume "\<exists>doc \<in> set corpus. t \<notin> set doc"
  then show "documentFrequency t corpus < length corpus"
    unfolding documentFrequency_def by (auto intro: length_filter_less)
qed

lemma inverseDocumentFrequency_sign:
  assumes "corpus \<noteq> []"
  shows "0 \<le> inverseDocumentFrequency t corpus \<longleftrightarrow> (\<exists>doc \<in> set corpus. t \<notin> set doc)"
proof -
  let ?n = "length corpus" and ?df = "documentFrequency t corpus"
  have n: "0 < ?n" using assms by simp
  have pos: "0 < real ?n / real (?df + 1)" using n by simp
  have "0 \<le> inverseDocumentFrequency t corpus \<longleftrightarrow> 1 \<le> real ?n / real (?df + 1)"
    unfolding inverseDocumentFrequency_def using pos by (rule ln_ge_zero_iff)
  also have "\<dots> \<longleftrightarrow> ?df + 1 \<le> ?n"
    by (simp add: le_divide_eq flip: of_nat_Suc)
  also have "\<dots> \<longleftrightarrow> ?df < ?n" by auto
  finally show ?thesis by (simp add: documentFrequency_less_iff)
qed

text \<open>
  C1. For a document \<open>d\<close> of the corpus, the computed vector has one entry per distinct
  token of \<open>d\<close>; it maps each token \<open>t\<close> of \<open>d\<close> to
  \<open>termFrequency t d * inverseDocumentFrequency t corpus\<close>, that is to
  count(t in d) / |d| times ln(|corpus| / (documentFrequency(t) + 1)), where the document
  frequency counts the corpus documents containing \<open>t\<close> (\<open>d\<close> among them); a token
  absent from \<open>d\<close> has no entry.
\<close>

theorem calculateTfIdf_weights:
  assumes "d \<in> set corpus"
  shows "distinct (map fst (calculateTfIdf d corpus)) \<and>
         fst ` set (calculateTfIdf d corpus) = set d \<and>
         map_of (calculateTfIdf d corpus) t =
           (if t \<in> set d
            then Some (termFrequency t d * inverseDocumentFrequency t corpus) else None)"
proof -
  let ?v = "calculateTfIdf d corpus"
  have "k \<in> fst ` set ?v \<longleftrightarrow> k \<in> set d" for k
  proof -
    have "k \<in> fst ` set ?v \<longleftrightarrow> map_of ?v k \<noteq> None"
      by (simp add: map_of_eq_None_iff)
    also have "\<dots> \<longleftrightarrow> k \<in> set d"
      by (simp add: calculateTfIdf_lookup)
    finally show ?thesis .
  qed
  then have "fst ` set ?v = set d"
    by blast
  with calculateTfIdf_distinct [of d corpus] calculateTfIdf_lookup [of d corpus t]
  show ?thesis by simp
qed

theorem calculateTfIdf_weights_witness:
  "[''react'', ''node'', ''react''] \<in> set [[''react'', ''node'', ''react''], [''java''], [''node'']] \<and>
   map_of (calculateTfIdf [''react'', ''node'', ''react'']
             [[''react'', ''node'', ''react''], [''java''], [''node'']]) ''react''
     = Some (2 / 3 * ln (3 / 2)) \<and>
   map_of (calculateTfIdf [''react'', ''node'', ''react'']
             [[''react'', ''node'', ''react''], [''java''], [''node'']]) ''java'' = None"
proof -
  have h: "[''react'', ''node'', ''react''] \<in> set [[''react'', ''node'', ''react''], [''java''], [''node'']]"
    by simp
  show ?thesis
    using calculateTfIdf_weights [OF h, of "''react''"] calculateTfIdf_weights [OF h, of "''java''"]
    by (simp add: termFrequency_def inverseDocumentFrequency_def documentFrequency_def)
qed

text \<open>
  The weight of a token that occurs in every document of the corpus is negative: with two
  identical one-token documents it is ln (2 / 3).
\<close>

theorem calculateTfIdf_negative_counterexample:
  "map_of (calculateTfIdf [''react''] [[''react''], [''react'']]) ''react'' = Some (ln (2 / 3))
   \<and> ln (2 / 3 :: real) < 0"
  by (simp add: calculateTfIdf_lookup termFrequency_def inverseDocumentFrequency_def
      documentFrequency_def)

text \<open>
  C6 (as the code has it). In the vector of a document of the corpus, the weight of a
  token is non-negative exactly when some document of the corpus does not contain the
  token; the weight of a token that every corpus document contains is negative.
\<close>

theorem calculateTfIdf_weight_sign:
  assumes "d \<in> set corpus" and "map_of (calculateTfIdf d corpus) t = Some w"
  shows "0 \<le> w \<longleftrightarrow> (\<exists>doc \<in> set corpus. t \<notin> set doc)"
proof -
  from assms(1) have ne: "corpus \<noteq> []" by auto
  from assms(2) have t: "t \<in> set d"
    and w: "w = termFrequency t d * inverseDocumentFrequency t corpus"
    by (auto simp: calculateTfIdf_lookup split: if_splits)
  from termFrequency_pos [OF t] have "0 \<le> w \<longleftrightarrow> 0 \<le> inverseDocumentFrequency t corpus"
    unfolding w by (simp add: zero_le_mult_iff)
  with inverseDocumentFrequency_sign [OF ne] show ?thesis by simp
qed

theorem calculateTfIdf_weight_sign_witness:
  "[''react''] \<in> set [[''react''], [''react'']] \<and>
   map_of (calculateTfIdf [''react''] [[''react''], [''react'']]) ''react'' = Some (ln (2 / 3)) \<and>
   ln (2 / 3 :: real) < 0"
proof -
  have h1: "[''react''] \<in> set [[''react''], [''react'']]"
    by simp
  have h2: "map_of (calculateTfIdf [''react''] [[''react''], [''react'']]) ''react'' = Some (ln (2 / 3))"
    by (simp add: calculateTfIdf_lookup termFrequency_def inverseDocumentFrequency_def
        documentFrequency_def)
  from calculateTfIdf_weight_sign [OF h1 h2] have "\<not> 0 \<le> ln (2 / 3 :: real)"
    by simp
  with h1 h2 show ?thesis
    by simp
qed

section \<open>Properties of the similarity\<close>

lemma js_set_loop:
  "distinct acc \<Longrightarrow>
   distinct (foldl (\<lambda>s x. if x \<in> set s then s else s @ [x]) acc xs) \<and>
   set (foldl (\<lambda>s x. if x \<in> set s then s else s @ [x]) acc xs) = set acc \<union> set xs"
  by (induction xs arbitrary: acc) auto

lemma js_set_distinct: "distinct (js_set xs)" and js_set_set: "set (js_set xs) = set xs"
  using js_set_loop [of "[]" xs] by (simp_all add: js_set_def)

lemma cosine_loop:
  "foldl (\<lambda>(dotProduct, mag1, mag2) key.
            (dotProduct + f key * g key, mag1 + f key * f key, mag2 + g key * g key)) (d, m1, m2) ks
   = (d + (\<Sum>k\<leftarrow>ks. f k * g k), m1 + (\<Sum>k\<leftarrow>ks. f k * f k), m2 + (\<Sum>k\<leftarrow>ks. g k * g k :: real))"
  by (induction ks arbitrary: d m1 m2) (simp_all add: Let_def algebra_simps)

lemma cosineSimilarity_sums:
  "cosineSimilarity vec1 vec2 =
     (let ks = js_set (map fst vec1 @ map fst vec2);
          dot = (\<Sum>k\<leftarrow>ks. get_or0 vec1 k * get_or0 vec2 k);
          mag1 = (\<Sum>k\<leftarrow>ks. get_or0 vec1 k * get_or0 vec1 k);
          mag2 = (\<Sum>k\<leftarrow>ks. get_or0 vec2 k * get_or0 vec2 k)
      in if mag1 = 0 \<or> mag2 = 0 then 0 else dot / (sqrt mag1 * sqrt mag2))"
  by (simp add: cosineSimilarity_def cosine_loop Let_def)

lemma sum_list_sq_nonneg: "0 \<le> (\<Sum>k\<leftarrow>ks. f k * f k :: real)"
  by (induction ks) simp_all

lemma sum_list_sq_zero:
  "(\<Sum>k\<leftarrow>ks. f k * f k :: real) = 0 \<longleftrightarrow> (\<forall>k \<in> set ks. f k = 0)"
proof (induction ks)
  case Nil
  then show ?case by simp
next
  case (Cons a ks)
  have "0 \<le> f a * f a" by simp
  with sum_list_sq_nonneg [of f ks] Cons show ?case
    by (auto simp: add_nonneg_eq_0_iff)
qed

lemma cauchy_schwarz_list:
  "(\<Sum>k\<leftarrow>ks. f k * g k)\<^sup>2 \<le> (\<Sum>k\<leftarrow>ks. f k * f k) * (\<Sum>k\<leftarrow>ks. g k * g k :: real)"
proof -
  let ?A = "\<Sum>k\<leftarrow>ks. f k * f k" and ?B = "\<Sum>k\<leftarrow>ks. f k * g k" and ?C = "\<Sum>k\<leftarrow>ks. g k * g k"
  have expand: "(\<Sum>k\<leftarrow>ks. (x * g k - y * f k) * (x * g k - y * f k)) = x * x * ?C - 2 * x * y * ?B + y * y * ?A"
    for x y :: real
    by (induction ks) (simp_all add: algebra_simps)
  have "0 \<le> (\<Sum>k\<leftarrow>ks. (?A * g k - ?B * f k) * (?A * g k - ?B * f k))"
    by (rule sum_list_sq_nonneg)
  then have ineq: "0 \<le> ?A * (?A * ?C - ?B * ?B)"
    unfolding expand by (simp add: algebra_simps)
  show ?thesis
  proof (cases "?A = 0")
    case True
    then have "\<forall>k \<in> set ks. f k = 0" by (simp add: sum_list_sq_zero)
    then have "?B = 0" by (induction ks) simp_all
    with True show ?thesis by simp
  next
    case False
    with sum_list_sq_nonneg [of f ks] have "0 < ?A" by simp
    with ineq have "0 \<le> ?A * ?C - ?B * ?B"
      by (simp add: zero_le_mult_iff)
    then show ?thesis by (simp add: power2_eq_square)
  qed
qed

lemma abs_le_one_bounds: "\<bar>x\<bar> \<le> 1 \<Longrightarrow> - 1 \<le> x \<and> x \<le> (1::real)"
  by linarith

lemma cosineSimilarity_bounds: "- 1 \<le> cosineSimilarity v1 v2 \<and> cosineSimilarity v1 v2 \<le> 1"
proof -
  let ?ks = "js_set (map fst v1 @ map fst v2)"
  let ?A = "\<Sum>k\<leftarrow>?ks. get_or0 v1 k * get_or0 v1 k"
  let ?B = "\<Sum>k\<leftarrow>?ks. get_or0 v1 k * get_or0 v2 k"
  let ?C = "\<Sum>k\<leftarrow>?ks. get_or0 v2 k * get_or0 v2 k"
  show ?thesis
  proof (cases "?A = 0 \<or> ?C = 0")
    case True
    then show ?thesis by (auto simp: cosineSimilarity_sums Let_def)
  next
    case False
    have A: "0 < ?A" and C: "0 < ?C"
      using False sum_list_sq_nonneg [of "get_or0 v1" ?ks] sum_list_sq_nonneg [of "get_or0 v2" ?ks]
      by auto
    have "?B\<^sup>2 \<le> ?A * ?C" by (rule cauchy_schwarz_list)
    then have "sqrt (?B\<^sup>2) \<le> sqrt (?A * ?C)" by (simp only: real_sqrt_le_iff)
    then have abs: "\<bar>?B\<bar> \<le> sqrt ?A * sqrt ?C" by (simp add: real_sqrt_mult)
    have pos: "0 < sqrt ?A * sqrt ?C" using A C by simp
    have "\<bar>?B\<bar> / (sqrt ?A * sqrt ?C) \<le> 1"
      using abs pos by (simp only: divide_le_eq_1_pos)
    then have "\<bar>?B / (sqrt ?A * sqrt ?C)\<bar> \<le> 1"
      using pos by (simp only: abs_div_pos)
    then have "- 1 \<le> ?B / (sqrt ?A * sqrt ?C) \<and> ?B / (sqrt ?A * sqrt ?C) \<le> 1"
      by (rule abs_le_one_bounds)
    moreover have "cosineSimilarity v1 v2 = ?B / (sqrt ?A * sqrt ?C)"
      using False by (simp add: cosineSimilarity_sums Let_def)
    ultimately show ?thesis by (simp only:)
  qed
qed

lemma cosineSimilarity_nonneg:
  assumes "\<And>k. 0 \<le> get_or0 v1 k * get_or0 v2 k"
  shows "0 \<le> cosineSimilarity v1 v2"
proof -
  have "0 \<le> (\<Sum>k\<leftarrow>ks. get_or0 v1 k * get_or0 v2 k)" for ks
    using assms by (induction ks) simp_all
  then show ?thesis
    by (simp add: cosineSimilarity_sums Let_def sum_list_sq_nonneg)
qed

lemma cosineSimilarity_zero_vector:
  assumes "(\<forall>k. get_or0 v1 k = 0) \<or> (\<forall>k. get_or0 v2 k = 0)"
  shows "cosineSimilarity v1 v2 = 0"
  using assms by (auto simp: cosineSimilarity_sums Let_def sum_list_sq_zero)

lemma termFrequency_nonneg: "0 \<le> termFrequency t d"
  by (simp add: termFrequency_def)

lemma tfidf_products_nonneg:
  "0 \<le> get_or0 (calculateTfIdf d1 corpus) k * get_or0 (calculateTfIdf d2 corpus) k"
proof -
  let ?i = "inverseDocumentFrequency k corpus"
  have "0 \<le> termFrequency k d1 * termFrequency k d2"
    by (rule mult_nonneg_nonneg [OF termFrequency_nonneg termFrequency_nonneg])
  moreover have "0 \<le> ?i * ?i"
    by simp
  ultimately have "0 \<le> (termFrequency k d1 * termFrequency k d2) * (?i * ?i)"
    by (rule mult_nonneg_nonneg)
  then have "0 \<le> (termFrequency k d1 * ?i) * (termFrequency k d2 * ?i)"
    by (simp add: mult_ac)
  then show ?thesis
    by (simp add: get_or0_tfidf)
qed

lemma get_or0_Nil: "get_or0 [] k = 0"
  by (simp add: get_or0_def)

lemma cosineSimilarity_self:
  assumes "k \<in> fst ` set v" and "get_or0 v k \<noteq> 0"
  shows "cosineSimilarity v v = 1"
proof -
  let ?ks = "js_set (map fst v @ map fst v)"
  let ?A = "\<Sum>k\<leftarrow>?ks. get_or0 v k * get_or0 v k"
  from assms(1) have "k \<in> set ?ks" by (simp add: js_set_set)
  with assms(2) have "?A \<noteq> 0" by (auto simp: sum_list_sq_zero)
  moreover have "0 \<le> ?A" by (rule sum_list_sq_nonneg)
  ultimately have "0 < ?A" by simp
  then have "?A / (sqrt ?A * sqrt ?A) = 1" by simp
  with \<open>?A \<noteq> 0\<close> show ?thesis
    by (simp add: cosineSimilarity_sums Let_def)
qed

lemma documentFrequency_pair:
  "t \<in> set q \<Longrightarrow> documentFrequency t [q, q] = 2"
  by (simp add: documentFrequency_def)

lemma cosineSimilarity_identical:
  assumes "q \<noteq> []"
  shows "cosineSimilarity (calculateTfIdf q [q, q]) (calculateTfIdf q [q, q]) = 1"
proof -
  let ?v = "calculateTfIdf q [q, q]"
  from assms obtain t where t: "t \<in> set q" by (cases q) auto
  have w: "map_of ?v t = Some (termFrequency t q * inverseDocumentFrequency t [q, q])"
    using t by (simp add: calculateTfIdf_lookup)
  then have key: "t \<in> fst ` set ?v"
    by (metis domI dom_map_of_conv_image_fst)
  have "inverseDocumentFrequency t [q, q] = ln (2 / 3)"
    using t by (simp add: inverseDocumentFrequency_def documentFrequency_pair)
  moreover have "ln (2 / 3 :: real) \<noteq> 0" by simp
  ultimately have "get_or0 ?v t \<noteq> 0"
    using termFrequency_pos [OF t] by (simp add: get_or0_tfidf t)
  with key show ?thesis by (rule cosineSimilarity_self)
qed

lemma Math_round_10000: "Math_round (1 * 100 * 100) / 100 = 100"
  by (simp add: Math_round_def)

lemma witness_job_tokens:
  "job_tokens \<lparr>jp_id = ''j1'', description = ''Senior React Developer'', requirements = None\<rparr>
     = [''senior'', ''react'', ''developer'']"
  by code_simp

lemma witness_resume_tokens:
  "tokenize (extracted_text \<lparr>r_id = ''r1'', extracted_text = ''Senior React Developer''\<rparr>)
     = [''senior'', ''react'', ''developer'']"
  by code_simp

text \<open>
  C5. When the query has at least one token and the only candidate has the same token
  list as the query, the run reports that candidate with the score 100.
\<close>

theorem identical_candidate_score:
  assumes "job_tokens jobPosting \<noteq> []"
    and "tokenize (extracted_text resume) = job_tokens jobPosting"
  shows "map (\<lambda>r. (resumeId r, similarity r)) (rank_results jobPosting [resume])
           = [(r_id resume, 100)]"
proof -
  let ?q = "job_tokens jobPosting"
  have corpus: "corpus_tokens jobPosting [resume] = [?q, ?q]"
    by (simp add: corpus_tokens_def assms(2))
  have toks: "the (map_of (resume_tokens_map [resume]) (r_id resume)) = ?q"
    by (simp add: resume_tokens_map_def assms(2))
  have "similarity (score_resume jobPosting [resume] resume) =
          Math_round (cosineSimilarity (calculateTfIdf ?q [?q, ?q]) (calculateTfIdf ?q [?q, ?q]) * 100 * 100) / 100"
    by (simp add: score_resume_def Let_def corpus toks)
  also have "\<dots> = 100"
    by (simp only: cosineSimilarity_identical [OF assms(1)] Math_round_10000)
  finally have "similarity (score_resume jobPosting [resume] resume) = 100" .
  moreover have "resumeId (score_resume jobPosting [resume] resume) = r_id resume"
    by (simp add: score_resume_def Let_def)
  ultimately show ?thesis
    by (simp add: rank_results_def score_resumes_def js_sort_def)
qed

theorem identical_candidate_score_witness:
  "job_tokens \<lparr>jp_id = ''j1'', description = ''Senior React Developer'', requirements = None\<rparr> \<noteq> [] \<and>
   tokenize (extracted_text \<lparr>r_id = ''r1'', extracted_text = ''Senior React Developer''\<rparr>)
     = job_tokens \<lparr>jp_id = ''j1'', description = ''Senior React Developer'', requirements = None\<rparr> \<and>
   map (\<lambda>r. (resumeId r, similarity r))
     (rank_results \<lparr>jp_id = ''j1'', description = ''Senior React Developer'', requirements = None\<rparr>
        [\<lparr>r_id = ''r1'', extracted_text = ''Senior React Developer''\<rparr>])
     = [(''r1'', 100)]"
proof -
  let ?jp = "\<lparr>jp_id = ''j1'', description = ''Senior React Developer'', requirements = None\<rparr>"
  let ?r = "\<lparr>r_id = ''r1'', extracted_text = ''Senior React Developer''\<rparr>"
  have h1: "job_tokens ?jp \<noteq> []"
    by (simp only: witness_job_tokens) simp
  have h2: "tokenize (extracted_text ?r) = job_tokens ?jp"
    by (simp only: witness_job_tokens witness_resume_tokens)
  from identical_candidate_score [OF h1 h2] have "map (\<lambda>r. (resumeId r, similarity r)) (rank_results ?jp [?r]) = [(''r1'', 100)]"
    by simp
  with h1 h2 show ?thesis
    by (intro conjI)
qed

section \<open>Properties of the ranking\<close>

lemma insort_by_key:
  "insort_by (\<lambda>a b. f b - f a) x ys = insort_key (\<lambda>r. - f r) x ys"
  by (induction ys) simp_all

lemma js_sort_desc: "js_sort (\<lambda>a b. f b - f a) xs = sort_key (\<lambda>r. - f r) xs"
  by (induction xs) (simp_all add: js_sort_def sort_key_def insort_by_key)

lemma rank_results_mset: "mset (rank_results jp rs) = mset (score_resumes jp rs)"
  by (simp add: rank_results_def js_sort_desc)



lemma score_resumes_ids: "map resumeId (score_resumes jp rs) = map r_id rs"
  by (simp add: score_resumes_def score_resume_def Let_def)






lemma calculateTfIdf_Nil: "calculateTfIdf [] corpus = []"
  by (simp add: calculateTfIdf_def)

lemma cosineSimilarity_disjoint:
  assumes "set d1 \<inter> set d2 = {}"
  shows "cosineSimilarity (calculateTfIdf d1 corpus) (calculateTfIdf d2 corpus) = 0"
proof -
  have "get_or0 (calculateTfIdf d1 corpus) k * get_or0 (calculateTfIdf d2 corpus) k = 0" for k
    using assms by (auto simp: get_or0_tfidf)
  then have "(\<Sum>k\<leftarrow>ks. get_or0 (calculateTfIdf d1 corpus) k * get_or0 (calculateTfIdf d2 corpus) k) = 0" for ks
    by (simp only: map_replicate_const sum_list_replicate)
  then show ?thesis
    by (simp add: cosineSimilarity_sums Let_def)
qed

lemma cosineSimilarity_same_tokens:
  assumes "t \<in> set q" and "inverseDocumentFrequency t corpus \<noteq> 0"
  shows "cosineSimilarity (calculateTfIdf q corpus) (calculateTfIdf q corpus) = 1"
proof -
  let ?v = "calculateTfIdf q corpus"
  have "map_of ?v t = Some (termFrequency t q * inverseDocumentFrequency t corpus)"
    using assms(1) by (simp add: calculateTfIdf_lookup)
  then have key: "t \<in> fst ` set ?v"
    by (metis domI dom_map_of_conv_image_fst)
  have "get_or0 ?v t \<noteq> 0"
    using termFrequency_pos [OF assms(1)] assms(2) by (simp add: get_or0_tfidf assms(1))
  with key show ?thesis by (rule cosineSimilarity_self)
qed

lemma Math_round_numeral: "Math_round 0 = 0" "Math_round 10000 = 10000"
  by (simp_all add: Math_round_def)

lemma demo_job_tokens: "job_tokens demo_job = [''react'', ''developer'']"
  unfolding demo_job_def by code_simp

lemma demo_corpus:
  "corpus_tokens demo_job demo_resumes = [[''react'', ''developer''], [], [''react'', ''developer''], [''python'']]"
proof -
  have "map (\<lambda>r. tokenize (extracted_text r)) demo_resumes = [[], [''react'', ''developer''], [''python'']]"
    unfolding demo_resumes_def by code_simp
  then show ?thesis
    by (simp add: corpus_tokens_def demo_job_tokens demo_resumes_def)
qed

lemma demo_tokens_map:
  "resume_tokens_map demo_resumes = [(''r1'', []), (''r2'', [''react'', ''developer'']), (''r3'', [''python''])]"
  unfolding demo_resumes_def by code_simp

lemma demo_keywords:
  "findMatchedKeywords [''react'', ''developer''] [] 10 = []"
  "findMatchedKeywords [''react'', ''developer''] [''react'', ''developer''] 10 = [''react'', ''developer'']"
  "findMatchedKeywords [''react'', ''developer''] [''python''] 10 = []"
  by (simp_all add: findMatchedKeywords_def js_set_def js_sort_def get_or0_def)

lemma demo_scores:
  "score_resumes demo_job demo_resumes =
     [\<lparr>resumeId = ''r1'', similarity = 0, matchedKeywords = []\<rparr>,
      \<lparr>resumeId = ''r2'', similarity = 100, matchedKeywords = [''react'', ''developer'']\<rparr>,
      \<lparr>resumeId = ''r3'', similarity = 0, matchedKeywords = []\<rparr>]"
proof -
  let ?q = "[''react'', ''developer'']"
  let ?c = "[?q, [], ?q, [''python'']]"
  have c1: "cosineSimilarity (calculateTfIdf ?q ?c) (calculateTfIdf [] ?c) = 0"
    by (simp add: calculateTfIdf_Nil cosineSimilarity_zero_vector get_or0_Nil)
  have "inverseDocumentFrequency ''react'' ?c = ln (4 / 3)"
    by (simp add: inverseDocumentFrequency_def documentFrequency_def)
  then have "inverseDocumentFrequency ''react'' ?c \<noteq> 0"
    by simp
  then have c2: "cosineSimilarity (calculateTfIdf ?q ?c) (calculateTfIdf ?q ?c) = 1"
    by (intro cosineSimilarity_same_tokens [of "''react''"]) simp_all
  have c3: "cosineSimilarity (calculateTfIdf ?q ?c) (calculateTfIdf [''python''] ?c) = 0"
    by (rule cosineSimilarity_disjoint) simp
  have s1: "score_resume demo_job demo_resumes \<lparr>r_id = ''r1'', extracted_text = ''''\<rparr> =
      \<lparr>resumeId = ''r1'', similarity = 0, matchedKeywords = []\<rparr>"
    by (simp add: score_resume_def Let_def demo_corpus demo_tokens_map
        demo_job_tokens demo_keywords c1 Math_round_numeral)
  have s2: "score_resume demo_job demo_resumes \<lparr>r_id = ''r2'', extracted_text = ''React developer''\<rparr> =
      \<lparr>resumeId = ''r2'', similarity = 100, matchedKeywords = [''react'', ''developer'']\<rparr>"
    by (simp add: score_resume_def Let_def demo_corpus demo_tokens_map
        demo_job_tokens demo_keywords c2 Math_round_numeral)
  have s3: "score_resume demo_job demo_resumes \<lparr>r_id = ''r3'', extracted_text = ''Python''\<rparr> =
      \<lparr>resumeId = ''r3'', similarity = 0, matchedKeywords = []\<rparr>"
    by (simp add: score_resume_def Let_def demo_corpus demo_tokens_map
        demo_job_tokens demo_keywords c3 Math_round_numeral)
  have "map f demo_resumes =
      [f \<lparr>r_id = ''r1'', extracted_text = ''''\<rparr>,
       f \<lparr>r_id = ''r2'', extracted_text = ''React developer''\<rparr>,
       f \<lparr>r_id = ''r3'', extracted_text = ''Python''\<rparr>]" for f :: "resume \<Rightarrow> match_result"
    by (simp add: demo_resumes_def)
  then show ?thesis
    by (simp only: score_resumes_def s1 s2 s3)
qed

lemma demo_ranked: "rank_results demo_job demo_resumes = demo_results"
  by (simp add: rank_results_def demo_scores js_sort_def demo_results_def)


lemma rank_results_ids: "mset (map resumeId (rank_results jp rs)) = mset (map r_id rs)"
proof -
  have "mset (map resumeId (rank_results jp rs)) = image_mset resumeId (mset (rank_results jp rs))"
    by simp
  also have "\<dots> = image_mset resumeId (mset (score_resumes jp rs))"
    by (simp only: rank_results_mset)
  also have "\<dots> = mset (map resumeId (score_resumes jp rs))"
    by simp
  finally show ?thesis by (simp only: score_resumes_ids)
qed


lemma serve_match_cases:
  "serve_match req flt db =
     (if req_method req = ''OPTIONS'' then (Preflight, db)
      else if invalid_request req flt db then
        (Failure (failure_of req flt db),
         if failure_of req flt db = InsertFailed
         then db\<lparr>similarity_results := kept_results req flt db\<rparr> else db)
      else
        (Success (rank_results (the (select_job db (requested_job req))) (fetched req db))
           (length (fetched req db)),
         db\<lparr>similarity_results :=
             kept_results req flt db @
             insert_data (requested_job req)
               (rank_results (the (select_job db (requested_job req))) (fetched req db))\<rparr>))"
proof (cases "body req")
  case NotJson
  then show ?thesis
    by (simp add: serve_match_def invalid_request_def failure_of_def)
next
  case NoData
  then show ?thesis
    by (simp add: serve_match_def invalid_request_def failure_of_def)
next
  case (Data m)
  show ?thesis
  proof (cases "jobPostingId m")
    case None
    with Data show ?thesis
      by (simp add: serve_match_def invalid_request_def failure_of_def requested_job_def)
  next
    case j: (Some jid)
    show ?thesis
    proof (cases "resumeIds m")
      case None
      with Data j show ?thesis
        by (simp add: serve_match_def invalid_request_def failure_of_def requested_job_def
            requested_ids_def)
    next
      case (Some ids)
      with Data j show ?thesis
        by (cases "select_job db jid")
          (simp_all add: serve_match_def invalid_request_def failure_of_def requested_job_def
            requested_ids_def fetched_def kept_results_def Let_def)
    qed
  qed
qed

lemma serve_match_success:
  "serve_match req flt db = (Success results n, db') \<longleftrightarrow>
     req_method req \<noteq> ''OPTIONS'' \<and> \<not> invalid_request req flt db \<and>
     results = rank_results (the (select_job db (requested_job req))) (fetched req db) \<and>
     n = length (fetched req db) \<and>
     db' = db\<lparr>similarity_results :=
             kept_results req flt db @ insert_data (requested_job req) results\<rparr>"
  unfolding serve_match_cases by auto

lemma serve_match_failure_iff:
  "serve_match req flt db = (Failure e, db') \<longleftrightarrow>
     req_method req \<noteq> ''OPTIONS'' \<and> invalid_request req flt db \<and>
     e = failure_of req flt db \<and>
     db' = (if e = InsertFailed then db\<lparr>similarity_results := kept_results req flt db\<rparr> else db)"
  unfolding serve_match_cases by auto


lemma demo_job_selected: "select_job demo_db ''j1'' = Some demo_job"
  by (simp add: select_job_def demo_db_def demo_job_def)

lemma demo_selected:
  "select_resumes demo_db [''r1'', ''r2'', ''r3''] = demo_resumes"
  "select_resumes demo_db [''r3'', ''r2'', ''r1''] = demo_resumes"
  "select_resumes demo_db [''r3'', ''zz''] = [\<lparr>r_id = ''r3'', extracted_text = ''Python''\<rparr>]"
  by (simp_all add: select_resumes_def demo_db_def demo_resumes_def)

lemma demo_requests:
  "requested_job demo_request = ''j1''" "requested_ids demo_request = [''r1'', ''r2'', ''r3'']"
  "requested_job demo_request_reversed = ''j1''"
  "requested_ids demo_request_reversed = [''r3'', ''r2'', ''r1'']"
  "requested_job demo_request_missing = ''j1''"
  "requested_ids demo_request_missing = [''r3'', ''zz'']"
  by (simp_all add: requested_job_def requested_ids_def demo_request_def
      demo_request_reversed_def demo_request_missing_def)

lemma demo_valid:
  "\<not> invalid_request demo_request no_faults demo_db"
  "\<not> invalid_request demo_request_reversed no_faults demo_db"
  "\<not> invalid_request demo_request_missing no_faults demo_db"
  by (simp_all add: invalid_request_def demo_requests demo_job_selected demo_selected fetched_def
      no_faults_def)
    (simp_all add: demo_request_def demo_request_reversed_def demo_request_missing_def
      demo_resumes_def)

lemma demo_rows:
  "insert_data ''j1'' demo_results =
      [\<lparr>job_posting_id = ''j1'', resume_id = ''r2'', similarity_score = 100,
          matched_keywords = [''react'', ''developer''], ranking = 1\<rparr>,
         \<lparr>job_posting_id = ''j1'', resume_id = ''r1'', similarity_score = 0,
          matched_keywords = [], ranking = 2\<rparr>,
         \<lparr>job_posting_id = ''j1'', resume_id = ''r3'', similarity_score = 0,
          matched_keywords = [], ranking = 3\<rparr>]"
  by (simp add: insert_data_def demo_results_def)

lemma demo_kept:
  "kept_results demo_request no_faults demo_db =
      [\<lparr>job_posting_id = ''j2'', resume_id = ''r1'', similarity_score = 10,
          matched_keywords = [], ranking = 1\<rparr>]"
  by (simp add: kept_results_def no_faults_def demo_requests demo_db_def)

lemma demo_run:
  "serve_match demo_request no_faults demo_db = (Success demo_results 3, demo_db_after)"
proof -
  have "req_method demo_request \<noteq> ''OPTIONS''"
    by (simp add: demo_request_def)
  moreover have "length demo_resumes = 3"
    by (simp add: demo_resumes_def)
  ultimately show ?thesis
    by (simp add: serve_match_success demo_valid demo_requests fetched_def demo_selected
        demo_job_selected demo_ranked demo_rows demo_kept demo_db_after_def)
qed




lemma resume_tokens_map_other:
  "k \<notin> r_id ` set rs \<Longrightarrow>
   map_of (foldl (\<lambda>m resume. AList.update (r_id resume) (tokenize (extracted_text resume)) m) acc rs) k
     = map_of acc k"
  by (induction rs arbitrary: acc) (simp_all add: update_conv')

lemma resume_tokens_map_loop:
  "distinct (map r_id rs) \<Longrightarrow> r \<in> set rs \<Longrightarrow>
   map_of (foldl (\<lambda>m resume. AList.update (r_id resume) (tokenize (extracted_text resume)) m) acc rs)
     (r_id r) = Some (tokenize (extracted_text r))"
proof (induction rs arbitrary: acc)
  case Nil
  then show ?case by simp
next
  case (Cons a rs)
  show ?case
  proof (cases "r \<in> set rs")
    case True
    with Cons show ?thesis by simp
  next
    case False
    with Cons.prems have a: "r = a" and other: "r_id a \<notin> r_id ` set rs"
      by auto
    show ?thesis
      using resume_tokens_map_other [OF other] by (simp add: a update_conv')
  qed
qed

lemma resume_tokens_map_lookup:
  "distinct (map r_id rs) \<Longrightarrow> r \<in> set rs \<Longrightarrow>
   map_of (resume_tokens_map rs) (r_id r) = Some (tokenize (extracted_text r))"
  unfolding resume_tokens_map_def by (rule resume_tokens_map_loop)

lemma findMatchedKeywords_Nil: "findMatchedKeywords jobTokens [] topN = []"
  by (simp add: findMatchedKeywords_def js_set_def js_sort_def)

lemma score_resume_no_tokens:
  assumes "distinct (map r_id rs)" and "r \<in> set rs" and "tokenize (extracted_text r) = []"
  shows "score_resume jp rs r = \<lparr>resumeId = r_id r, similarity = 0, matchedKeywords = []\<rparr>"
proof -
  have lookup: "the (map_of (resume_tokens_map rs) (r_id r)) = []"
    using resume_tokens_map_lookup [OF assms(1,2)] assms(3) by simp
  have "cosineSimilarity v (calculateTfIdf [] corpus) = 0" for v corpus
    by (simp add: calculateTfIdf_Nil cosineSimilarity_zero_vector get_or0_Nil)
  then show ?thesis
    by (simp add: score_resume_def Let_def lookup findMatchedKeywords_Nil Math_round_numeral)
qed

lemma rank_results_member:
  "r \<in> set rs \<Longrightarrow> score_resume jp rs r \<in> set (rank_results jp rs)"
proof -
  assume "r \<in> set rs"
  then have "score_resume jp rs r \<in> set (score_resumes jp rs)"
    by (simp add: score_resumes_def)
  also have "set (score_resumes jp rs) = set (rank_results jp rs)"
    using rank_results_mset [of jp rs] by (metis mset_eq_setD)
  finally show ?thesis .
qed

lemma tokenize_Nil: "tokenize [] = []"
  by (simp add: tokenize_def toLowerCase_def replace_non_az09_def)




text \<open>
  A run whose first candidate has empty text succeeds; that candidate is ranked with
  score 0.
\<close>

theorem empty_text_candidate_counterexample:
  "\<lparr>r_id = ''r1'', extracted_text = ''''\<rparr> \<in> set (fetched demo_request demo_db)
   \<and> serve_match demo_request no_faults demo_db = (Success demo_results 3, demo_db_after)
   \<and> demo_results ! 1 = \<lparr>resumeId = ''r1'', similarity = 0, matchedKeywords = []\<rparr>"
  by (simp add: demo_run fetched_def demo_requests demo_selected)
    (simp add: demo_resumes_def demo_results_def)

text \<open>
  C4 (as the code has it). After the preflight check the handler ends in one failure
  exactly when the request is invalid in the sense of \<open>invalid_request\<close>: the client
  cannot be created, there is no authorization header, the body is not JSON or has no
  data, the job posting id or the list of resume ids is missing or empty, the job
  posting query fails or finds no single row, the resume query fails or finds no row,
  or the insert fails. The failure is the first of these in the handler's order. It
  leaves the database as it was, except the failed insert, which comes after the
  delete: then the stored results of the job posting are gone. Otherwise the run
  succeeds, whatever the texts: every fetched candidate is in the output, and one whose
  text has no token (an empty text among them) has score 0 and no matched keyword.
\<close>

theorem serve_match_failure:
  assumes "req_method req \<noteq> ''OPTIONS''"
  shows "((\<exists>e db'. serve_match req flt db = (Failure e, db')) \<longleftrightarrow> invalid_request req flt db) \<and>
     (\<forall>e db'. serve_match req flt db = (Failure e, db') \<longrightarrow>
          e = failure_of req flt db \<and>
          (e \<noteq> InsertFailed \<longrightarrow> db' = db) \<and>
          (e = InsertFailed \<longrightarrow> db' = db\<lparr>similarity_results := kept_results req flt db\<rparr>)) \<and>
     (\<not> invalid_request req flt db \<longrightarrow>
        (\<exists>results db'. serve_match req flt db = (Success results (length (fetched req db)), db') \<and>
          mset (map resumeId results) = mset (map r_id (fetched req db)) \<and>
          (distinct (map r_id (resumes db)) \<longrightarrow>
             (\<forall>r \<in> set (fetched req db). tokenize (extracted_text r) = [] \<longrightarrow>
                \<lparr>resumeId = r_id r, similarity = 0, matchedKeywords = []\<rparr> \<in> set results))))"
proof (intro conjI allI impI)
  show "(\<exists>e db'. serve_match req flt db = (Failure e, db')) \<longleftrightarrow> invalid_request req flt db"
    using assms by (simp add: serve_match_failure_iff)
  fix e db'
  assume fail: "serve_match req flt db = (Failure e, db')"
  then show "e = failure_of req flt db"
    by (simp add: serve_match_failure_iff)
  show "db' = db" if "e \<noteq> InsertFailed"
    using fail that by (simp add: serve_match_failure_iff)
  show "db' = db\<lparr>similarity_results := kept_results req flt db\<rparr>" if "e = InsertFailed"
    using fail that by (simp add: serve_match_failure_iff)
next
  assume valid: "\<not> invalid_request req flt db"
  let ?jp = "the (select_job db (requested_job req))"
  let ?rs = "fetched req db"
  let ?results = "rank_results ?jp ?rs"
  have run: "\<exists>db'. serve_match req flt db = (Success ?results (length ?rs), db')"
    using valid assms by (simp add: serve_match_success)
  have ids: "mset (map resumeId ?results) = mset (map r_id ?rs)"
    by (rule rank_results_ids)
  have empty: "\<lparr>resumeId = r_id r, similarity = 0, matchedKeywords = []\<rparr> \<in> set ?results"
    if d: "distinct (map r_id (resumes db))" and r: "r \<in> set ?rs"
      and t: "tokenize (extracted_text r) = []" for r
  proof -
    from d have "distinct (map r_id ?rs)"
      unfolding fetched_def select_resumes_def by (rule distinct_map_filter)
    from score_resume_no_tokens [OF this r t, of ?jp] rank_results_member [OF r, of ?jp]
    show ?thesis by simp
  qed
  from run ids empty
  show "\<exists>results db'. serve_match req flt db = (Success results (length ?rs), db') \<and>
          mset (map resumeId results) = mset (map r_id ?rs) \<and>
          (distinct (map r_id (resumes db)) \<longrightarrow>
             (\<forall>r \<in> set ?rs. tokenize (extracted_text r) = [] \<longrightarrow>
                \<lparr>resumeId = r_id r, similarity = 0, matchedKeywords = []\<rparr> \<in> set results))"
    by blast
qed

theorem serve_match_failure_witness:
  "req_method demo_request \<noteq> ''OPTIONS'' \<and>
   \<not> invalid_request demo_request no_faults demo_db \<and>
   distinct (map r_id (resumes demo_db)) \<and>
   \<lparr>r_id = ''r1'', extracted_text = ''''\<rparr> \<in> set (fetched demo_request demo_db) \<and>
   tokenize (extracted_text \<lparr>r_id = ''r1'', extracted_text = ''''\<rparr>) = [] \<and>
   (\<exists>results db'. serve_match demo_request no_faults demo_db = (Success results 3, db') \<and>
      mset (map resumeId results) = mset [''r1'', ''r2'', ''r3''] \<and>
      \<lparr>resumeId = ''r1'', similarity = 0, matchedKeywords = []\<rparr> \<in> set results) \<and>
   invalid_request (demo_request\<lparr>body := NoData\<rparr>) no_faults demo_db \<and>
   serve_match (demo_request\<lparr>body := NoData\<rparr>) no_faults demo_db = (Failure NoRequestData, demo_db) \<and>
   invalid_request demo_request insert_faults demo_db \<and>
   serve_match demo_request insert_faults demo_db =
     (Failure InsertFailed,
      demo_db\<lparr>similarity_results :=
        [\<lparr>job_posting_id = ''j2'', resume_id = ''r1'', similarity_score = 10,
          matched_keywords = [], ranking = 1\<rparr>]\<rparr>)"
proof -
  let ?nodata = "demo_request\<lparr>body := NoData\<rparr>"
  let ?r1 = "\<lparr>r_id = ''r1'', extracted_text = ''''\<rparr>"
  have m: "req_method demo_request \<noteq> ''OPTIONS''" "req_method ?nodata \<noteq> ''OPTIONS''"
    by (simp_all add: demo_request_def)
  note ok = demo_valid(1)
  have dist: "distinct (map r_id (resumes demo_db))"
    by (simp add: demo_db_def demo_resumes_def)
  have mem: "?r1 \<in> set (fetched demo_request demo_db)"
    by (simp add: fetched_def demo_requests demo_selected) (simp add: demo_resumes_def)
  have tok: "tokenize (extracted_text ?r1) = []"
    by (simp add: tokenize_Nil)
  have ids: "map r_id (fetched demo_request demo_db) = [''r1'', ''r2'', ''r3'']"
    by (simp add: fetched_def demo_requests demo_selected) (simp add: demo_resumes_def)
  have len: "length (fetched demo_request demo_db) = 3"
    by (simp add: fetched_def demo_requests demo_selected) (simp add: demo_resumes_def)
  from serve_match_failure [OF m(1), of no_faults demo_db] ok
  obtain results db' where run: "serve_match demo_request no_faults demo_db = (Success results 3, db')"
    and perm: "mset (map resumeId results) = mset [''r1'', ''r2'', ''r3'']"
    and empty: "distinct (map r_id (resumes demo_db)) \<longrightarrow>
             (\<forall>r \<in> set (fetched demo_request demo_db). tokenize (extracted_text r) = [] \<longrightarrow>
                \<lparr>resumeId = r_id r, similarity = 0, matchedKeywords = []\<rparr> \<in> set results)"
    unfolding ids len by blast
  from empty dist mem tok
  have "\<lparr>resumeId = r_id ?r1, similarity = 0, matchedKeywords = []\<rparr> \<in> set results"
    by blast
  then have scored: "\<lparr>resumeId = ''r1'', similarity = 0, matchedKeywords = []\<rparr> \<in> set results"
    by simp
  have a: "\<exists>results db'. serve_match demo_request no_faults demo_db = (Success results 3, db') \<and>
      mset (map resumeId results) = mset [''r1'', ''r2'', ''r3''] \<and>
      \<lparr>resumeId = ''r1'', similarity = 0, matchedKeywords = []\<rparr> \<in> set results"
    using run perm scored by blast
  have bad: "invalid_request ?nodata no_faults demo_db"
    by (simp add: invalid_request_def)
  from serve_match_failure [OF m(2), of no_faults demo_db] bad
  obtain e db'' where f: "serve_match ?nodata no_faults demo_db = (Failure e, db'')"
    by blast
  with serve_match_failure [OF m(2), of no_faults demo_db]
  have "e = failure_of ?nodata no_faults demo_db" and "e \<noteq> InsertFailed \<longrightarrow> db'' = demo_db"
    by blast+
  moreover have "failure_of ?nodata no_faults demo_db = NoRequestData"
    by (simp add: failure_of_def no_faults_def demo_request_def)
  ultimately have b: "serve_match ?nodata no_faults demo_db = (Failure NoRequestData, demo_db)"
    using f by simp
  have bad2: "invalid_request demo_request insert_faults demo_db"
    by (simp add: invalid_request_def insert_faults_def)
  from serve_match_failure [OF m(1), of insert_faults demo_db] bad2
  obtain e2 db2 where f2: "serve_match demo_request insert_faults demo_db = (Failure e2, db2)"
    by blast
  have fo: "failure_of demo_request insert_faults demo_db = InsertFailed"
    using ok
    by (simp add: failure_of_def invalid_request_def insert_faults_def no_faults_def)
  have kept: "kept_results demo_request insert_faults demo_db =
      [\<lparr>job_posting_id = ''j2'', resume_id = ''r1'', similarity_score = 10,
          matched_keywords = [], ranking = 1\<rparr>]"
    by (simp add: kept_results_def insert_faults_def no_faults_def demo_requests demo_db_def)
  from serve_match_failure [OF m(1), of insert_faults demo_db] f2
  have "e2 = failure_of demo_request insert_faults demo_db"
    and "e2 = InsertFailed \<longrightarrow> db2 = demo_db\<lparr>similarity_results := kept_results demo_request insert_faults demo_db\<rparr>"
    by blast+
  with fo kept f2 have c: "serve_match demo_request insert_faults demo_db =
     (Failure InsertFailed,
      demo_db\<lparr>similarity_results :=
        [\<lparr>job_posting_id = ''j2'', resume_id = ''r1'', similarity_score = 10,
          matched_keywords = [], ranking = 1\<rparr>]\<rparr>)"
    by simp
  from m(1) ok dist mem tok a bad b bad2 c show ?thesis
    by (intro conjI)
qed

section \<open>Properties of the metadata extraction\<close>

lemma first_some_None_iff: "first_some xs = None \<longleftrightarrow> (\<forall>x \<in> set xs. x = None)"
  by (induction xs rule: first_some.induct) auto

lemma rx_match_class:
  "rx_match [Class P] prev s = (case s of [] \<Rightarrow> None | c # cs \<Rightarrow> if P c then Some 1 else None)"
  by (cases s) simp_all

lemma rx_match_class_None:
  "rx_match [Class P] (last_consumed None s i) (drop i s) = None \<longleftrightarrow> \<not> (i < length s \<and> P (s ! i))"
proof (cases "i < length s")
  case True
  then have "drop i s = s ! i # drop (Suc i) s"
    by (simp add: Cons_nth_drop_Suc)
  with True show ?thesis by (simp add: rx_match_class)
next
  case False
  then show ?thesis by (simp add: rx_match_class)
qed

lemma rx_test_class: "rx_test [Class P] s \<longleftrightarrow> (\<exists>c \<in> set s. P c)"
proof -
  have "rx_exec [Class P] s = None \<longleftrightarrow>
      (\<forall>i \<in> set [0 ..< length s + 1]. rx_match [Class P] (last_consumed None s i) (drop i s) = None)"
    by (simp add: rx_exec_def first_some_None_iff del: rx_match.simps)
  also have "\<dots> \<longleftrightarrow> (\<forall>i < length s. \<not> P (s ! i))"
    by (simp only: rx_match_class_None) auto
  also have "\<dots> \<longleftrightarrow> \<not> (\<exists>c \<in> set s. P c)"
    by (metis in_set_conv_nth)
  finally show ?thesis by (simp add: rx_test_def)
qed

lemma split_lines_no_newline: "CHR 0x0A \<notin> set s \<Longrightarrow> split_lines s = [s]"
  by (induction s) auto

lemma trim_subset: "set (trim s) \<subseteq> set s"
proof -
  have "set (trim s) \<subseteq> set (dropWhile is_space s)"
    by (auto simp: trim_def dest: set_dropWhileD)
  then show ?thesis
    by (auto dest: set_dropWhileD)
qed

lemma trim_idem: "trim (trim s) = trim s"
proof -
  let ?u = "dropWhile is_space s"
  let ?t = "trim s"
  have split: "?t @ rev (takeWhile is_space (rev ?u)) = ?u"
  proof -
    have "?t @ rev (takeWhile is_space (rev ?u)) =
        rev (takeWhile is_space (rev ?u) @ dropWhile is_space (rev ?u))"
      by (simp only: rev_append trim_def)
    also have "\<dots> = ?u"
      by (simp only: takeWhile_dropWhile_id rev_rev_ident)
    finally show ?thesis .
  qed
  have front: "dropWhile is_space ?t = ?t"
  proof (cases "?t = []")
    case True
    then show ?thesis by simp
  next
    case False
    with split have "hd ?t = hd ?u"
      by (metis hd_append2)
    moreover from False split have "?u \<noteq> []"
      by (metis append_is_Nil_conv)
    moreover from \<open>?u \<noteq> []\<close> have "\<not> is_space (hd ?u)"
      by (rule hd_dropWhile)
    ultimately show ?thesis
      using False by (simp add: dropWhile_eq_self_iff)
  qed
  have rear: "dropWhile is_space (rev ?t) = rev ?t"
    by (simp add: trim_def)
  show ?thesis
    unfolding trim_def [of ?t] front rear by simp
qed

lemma collapse_ws_spaces: "c \<in> set (collapse_ws s) \<Longrightarrow> is_space c \<Longrightarrow> c = CHR '' ''"
proof (induction s rule: collapse_ws.induct)
  case 1
  then show ?case by simp
next
  case (2 d ds)
  then show ?case by (cases "is_space d") auto
qed

lemma cleanText_spaces:
  assumes "c \<in> set (cleanText s)" and "is_space c"
  shows "c = CHR '' ''"
proof -
  from assms(1) trim_subset
  have "c \<in> set (map (\<lambda>c. if is_word c \<or> is_space c \<or> c \<in> set ''@.-'' then c else CHR '' '')
             (collapse_ws s))"
    unfolding cleanText_def by blast
  then obtain d where d: "d \<in> set (collapse_ws s)"
    and c: "c = (if is_word d \<or> is_space d \<or> d \<in> set ''@.-'' then d else CHR '' '')"
    by auto
  show ?thesis
  proof (cases "c = d")
    case True
    with d assms(2) show ?thesis by (simp add: collapse_ws_spaces)
  next
    case False
    with c show ?thesis by (simp split: if_splits)
  qed
qed

lemma newline_is_space: "is_space (CHR 0x0A)"
  by (simp add: is_space_def code_unit_def)

lemma cleanText_no_newline: "CHR 0x0A \<notin> set (cleanText s)"
proof
  assume "CHR 0x0A \<in> set (cleanText s)"
  from cleanText_spaces [OF this newline_is_space] show False by simp
qed

lemma cleanText_trimmed: "trim (cleanText s) = cleanText s"
  by (simp add: cleanText_def trim_idem)

lemma extractName_cleanText:
  "extractName (cleanText s) =
     (if cleanText s \<noteq> [] \<and> length (cleanText s) < 50 \<and> \<not> (\<exists>c \<in> set (cleanText s). is_digit c)
      then Some (cleanText s) else None)"
  by (simp add: extractName_def split_lines_no_newline [OF cleanText_no_newline]
      cleanText_trimmed rx_test_class Let_def)

lemma found_skills_set:
  "set (foldl (\<lambda>foundSkills skill.
                 if test skill then foundSkills @ [unescape_plus skill] else foundSkills)
          acc vocabulary) = set acc \<union> unescape_plus ` {skill \<in> set vocabulary. test skill}"
proof (induction vocabulary arbitrary: acc)
  case Nil
  then show ?case by simp
next
  case (Cons a vocabulary)
  show ?case
    by (simp only: foldl_Cons Cons.IH) auto
qed

lemma extractSkills_set:
  "set (extractSkills s) =
     unescape_plus ` {skill \<in> set commonSkills.
        rx_test (parse_pattern ([bs, CHR ''b''] @ skill @ [bs, CHR ''b''])) (toLowerCase s)}"
  by (simp add: extractSkills_def Let_def js_set_set found_skills_set)

lemma unescaped_vocabulary:
  "''c++'' \<notin> set (map unescape_plus commonSkills)"
  by code_simp

lemma escaped_label_only:
  "filter (\<lambda>skill. unescape_plus skill = [CHR ''c'', bs, CHR ''+'', bs, CHR ''+'']) commonSkills
     = [[CHR ''c'', bs, CHR ''+'', bs, CHR ''+'']]"
  by code_simp

lemma cpp_pattern_no_match:
  "\<not> rx_test (parse_pattern ([bs, CHR ''b''] @ [CHR ''c'', bs, CHR ''+'', bs, CHR ''+''] @ [bs, CHR ''b'']))
       (toLowerCase ''I write C++ and Java'')"
  by code_simp

lemma java_pattern_inside_javascript:
  "\<not> rx_test (parse_pattern ([bs, CHR ''b''] @ ''java'' @ [bs, CHR ''b''])) (toLowerCase ''JavaScript'')"
  by code_simp

lemma process_resume_email:
  assumes "authHeader \<noteq> None" "authHeader \<noteq> Some []"
    and "content resumeData \<noteq> []" "filename resumeData \<noteq> []"
  shows "map_sum id candidate_email (process_resume authHeader resumeData)
           = Inr (extractEmail (cleanText (content resumeData)))"
  using assms by (simp add: process_resume_def Let_def)

lemma email_example_clean:
  "cleanText ''Contact: jane.doe+hr@example.co.uk for details''
     = ''Contact  jane.doe hr@example.co.uk for details''"
  by code_simp

lemma email_example_cleaned:
  "extractEmail ''Contact  jane.doe hr@example.co.uk for details'' = Some ''hr@example.co.uk''"
  by code_simp

lemma email_example_raw:
  "extractEmail ''Contact: jane.doe+hr@example.co.uk for details'' = Some ''jane.doe+hr@example.co.uk''"
  by code_simp

lemma demo_resume_clean:
  "cleanText (content demo_resume_data)
     = ''John Smith Software engineer with a long record of shipped products''"
  unfolding demo_resume_data_def by code_simp

lemma demo_resume_name:
  "extractName ''John Smith Software engineer with a long record of shipped products'' = None"
proof -
  have "50 \<le> length (cleanText (content demo_resume_data))"
    by (simp only: demo_resume_clean) simp
  then have "extractName (cleanText (content demo_resume_data)) = None"
    by (simp add: extractName_cleanText)
  then show ?thesis by (simp only: demo_resume_clean)
qed

lemma demo_resume_processed:
  "process_resume (Some ''Bearer token'') demo_resume_data = Inr demo_resume_row"
proof -
  have "content demo_resume_data \<noteq> []" "filename demo_resume_data \<noteq> []"
    by (simp_all add: demo_resume_data_def)
  then show ?thesis
    by (simp add: process_resume_def Let_def demo_resume_clean demo_resume_name demo_resume_row_def)
      (simp add: demo_resume_data_def)
qed

text \<open>
  C7, on the code: the label of C++ is never returned as \<open>c++\<close>, whatever the text
  (the unescaping expression asks for two backslashes where the label has one), and on
  the text \<open>I write C++ and Java\<close> the skill is not found at all, under either
  spelling: the closing word boundary cannot hold between a plus sign and a space.
  (The pattern of \<open>java\<close> does not match inside \<open>JavaScript\<close>, as the claim says.)
\<close>

theorem cpp_skill_not_extracted:
  "''c++'' \<notin> set (extractSkills ''I write C++ and Java'') \<and>
   [CHR ''c'', bs, CHR ''+'', bs, CHR ''+''] \<notin> set (extractSkills ''I write C++ and Java'') \<and>
   (\<forall>s. ''c++'' \<notin> set (extractSkills s)) \<and>
   \<not> rx_test (parse_pattern ([bs, CHR ''b''] @ ''java'' @ [bs, CHR ''b''])) (toLowerCase ''JavaScript'')"
proof -
  have never: "''c++'' \<notin> set (extractSkills s)" for s
    using unescaped_vocabulary by (auto simp: extractSkills_set)
  have "[CHR ''c'', bs, CHR ''+'', bs, CHR ''+''] \<notin> set (extractSkills ''I write C++ and Java'')"
  proof
    assume "[CHR ''c'', bs, CHR ''+'', bs, CHR ''+''] \<in> set (extractSkills ''I write C++ and Java'')"
    then obtain skill where skill: "skill \<in> set commonSkills"
      and un: "unescape_plus skill = [CHR ''c'', bs, CHR ''+'', bs, CHR ''+'']"
      and test: "rx_test (parse_pattern ([bs, CHR ''b''] @ skill @ [bs, CHR ''b'']))
                   (toLowerCase ''I write C++ and Java'')"
      by (auto simp: extractSkills_set)
    from skill un have "skill \<in> set (filter (\<lambda>skill. unescape_plus skill = [CHR ''c'', bs, CHR ''+'', bs, CHR ''+'']) commonSkills)"
      by simp
    then have "skill = [CHR ''c'', bs, CHR ''+'', bs, CHR ''+'']"
      by (simp only: escaped_label_only) simp
    with test cpp_pattern_no_match show False by simp
  qed
  with never java_pattern_inside_javascript show ?thesis by blast
qed

text \<open>
  C9, on the code: for the content \<open>Contact: jane.doe+hr@example.co.uk for details\<close> the
  handler stores the email \<open>hr@example.co.uk\<close>, because the cleaning replaces the
  plus sign by a space before the extraction; \<open>extractEmail\<close> on the content itself
  gives the whole address.
\<close>

theorem email_extraction_after_cleaning:
  "map_sum id candidate_email
     (process_resume (Some ''Bearer token'')
        \<lparr>filename = ''cv.txt'', content = ''Contact: jane.doe+hr@example.co.uk for details'',
         userId = ''u1''\<rparr>)
     = Inr (Some ''hr@example.co.uk'') \<and>
   extractEmail ''Contact: jane.doe+hr@example.co.uk for details''
     = Some ''jane.doe+hr@example.co.uk''"
proof -
  have "map_sum id candidate_email
     (process_resume (Some ''Bearer token'')
        \<lparr>filename = ''cv.txt'', content = ''Contact: jane.doe+hr@example.co.uk for details'',
         userId = ''u1''\<rparr>)
     = Inr (extractEmail (cleanText ''Contact: jane.doe+hr@example.co.uk for details''))"
    by (simp add: process_resume_email)
  then show ?thesis
    by (simp only: email_example_clean email_example_cleaned email_example_raw)
qed

text \<open>
  C10. In a processed resume the stored text is the cleaned content; it has no line
  feed, and its only whitespace characters are spaces. Name extraction therefore sees
  the whole cleaned text as its first line: the name is that text when it is non-empty,
  shorter than 50 characters and without a digit, and absent otherwise; in particular
  it is absent whenever the cleaned text has 50 characters or more.
\<close>

theorem cleaned_name_extraction:
  assumes "process_resume authHeader resumeData = Inr row"
  shows "ri_extracted_text row = cleanText (content resumeData) \<and>
     CHR 0x0A \<notin> set (ri_extracted_text row) \<and>
     (\<forall>c \<in> set (ri_extracted_text row). is_space c \<longrightarrow> c = CHR '' '') \<and>
     candidate_name row =
       (if ri_extracted_text row \<noteq> [] \<and> length (ri_extracted_text row) < 50 \<and>
           \<not> (\<exists>c \<in> set (ri_extracted_text row). is_digit c)
        then Some (ri_extracted_text row) else None) \<and>
     (50 \<le> length (ri_extracted_text row) \<longrightarrow> candidate_name row = None)"
proof -
  from assms have cleaned: "ri_extracted_text row = cleanText (content resumeData)"
    and name: "candidate_name row = extractName (cleanText (content resumeData))"
    by (auto simp: process_resume_def Let_def split: if_splits)
  have "CHR 0x0A \<notin> set (ri_extracted_text row)"
    unfolding cleaned by (rule cleanText_no_newline)
  moreover have "\<forall>c \<in> set (ri_extracted_text row). is_space c \<longrightarrow> c = CHR '' ''"
    unfolding cleaned using cleanText_spaces by blast
  moreover have full: "candidate_name row =
       (if ri_extracted_text row \<noteq> [] \<and> length (ri_extracted_text row) < 50 \<and>
           \<not> (\<exists>c \<in> set (ri_extracted_text row). is_digit c)
        then Some (ri_extracted_text row) else None)"
    unfolding cleaned name by (rule extractName_cleanText)
  moreover from full have "50 \<le> length (ri_extracted_text row) \<longrightarrow> candidate_name row = None"
    by simp
  ultimately show ?thesis
    using cleaned by blast
qed

theorem cleaned_name_extraction_witness:
  "process_resume (Some ''Bearer token'') demo_resume_data = Inr demo_resume_row \<and>
   ri_extracted_text demo_resume_row = cleanText (content demo_resume_data) \<and>
   CHR 0x0A \<notin> set (ri_extracted_text demo_resume_row) \<and>
   50 \<le> length (ri_extracted_text demo_resume_row) \<and>
   candidate_name demo_resume_row = None"
proof -
  have len: "50 \<le> length (ri_extracted_text demo_resume_row)"
    by (simp add: demo_resume_row_def)
  note t = cleaned_name_extraction [OF demo_resume_processed]
  from t have a: "ri_extracted_text demo_resume_row = cleanText (content demo_resume_data)"
    by (rule conjunct1)
  from t have b: "CHR 0x0A \<notin> set (ri_extracted_text demo_resume_row)"
    by blast
  from t len have c: "candidate_name demo_resume_row = None"
    by blast
  from demo_resume_processed a b len c show ?thesis
    by (intro conjI)
qed

end
